theory Spec2Isabelle
  imports Main "HOL-Library.Word" "HOL-Library.Multiset"
begin

section \<open>Spotter: a shallow embedding of the load generator\<close>

text \<open>
  \<^verbatim>\<open>src/Spotter.go\<close> holds two revisions of the program, one after the other: the
  earlier one in lines 1--319 and the current one in lines 320--687. The embedding follows
  the current revision. Two functions of the earlier revision are embedded as well, under
  the names \<open>checkURL\<close> and \<open>bench_old\<close>, because claims refer to them.

  The Go standard library and runtime are outside the repository. What the program needs
  from them is either written out from their documented behaviour (\<open>strings.HasPrefix\<close>,
  \<open>strings.Contains\<close>, \<open>strings.Split\<close>, the redirect loop of \<open>http.Client.Do\<close>) or
  taken as a parameter (the record \<open>gostd\<close>). Go's \<open>int\<close> is taken to be 64 bits wide.
\<close>

type_synonym int64 = "64 word"

subsection \<open>Errors and process exits\<close>

text \<open>A Go \<open>error\<close> value is modelled by the text its \<open>Error()\<close> method returns.\<close>

datatype go_error = GoError string

fun Error :: "go_error \<Rightarrow> string" where
  "Error (GoError msg) = msg"

text \<open>
  The ways startup ends the process: \<open>os.Exit(code)\<close>, \<open>log.Fatalf\<close> (prints its
  format string filled with its arguments, then exits with status 1) and a runtime panic.
\<close>

datatype exit = Exit int | Fatalf string "string list" | Panic string

subsection \<open>Package strings\<close>

definition strings_HasPrefix :: "string \<Rightarrow> string \<Rightarrow> bool" where
  "strings_HasPrefix s pre = (take (length pre) s = pre)"

fun strings_Contains :: "string \<Rightarrow> string \<Rightarrow> bool" where
  "strings_Contains [] sub = (sub = [])"
| "strings_Contains (c # cs) sub =
     (strings_HasPrefix (c # cs) sub \<or> strings_Contains cs sub)"

text \<open>\<open>strings.Split\<close> for a separator of one byte, the only use the program makes of it.\<close>

fun strings_Split :: "string \<Rightarrow> char \<Rightarrow> string list" where
  "strings_Split [] sep = [[]]"
| "strings_Split (c # cs) sep =
     (if c = sep then [] # strings_Split cs sep
      else (case strings_Split cs sep of
              [] \<Rightarrow> [[c]]
            | p # ps \<Rightarrow> (c # p) # ps))"

text \<open>\<open>strings.Join\<close>, likewise for a separator of one byte.\<close>

fun strings_Join :: "string list \<Rightarrow> char \<Rightarrow> string" where
  "strings_Join [] sep = []"
| "strings_Join [p] sep = p"
| "strings_Join (p # q # ps) sep = p @ sep # strings_Join (q # ps) sep"

text \<open>The verb \<open>%d\<close> of package fmt: a signed decimal numeral.\<close>

fun digits :: "nat \<Rightarrow> string" where
  "digits n =
     (if n < 10 then [''0123456789'' ! n]
      else digits (n div 10) @ [''0123456789'' ! (n mod 10)])"

definition fmt_d :: "int \<Rightarrow> string" where
  "fmt_d i = (if i < 0 then CHR ''-'' # digits (nat (- i)) else digits (nat i))"

subsection \<open>Responses and outcomes\<close>

text \<open>
  An \<open>http.Response\<close> as the program reads it: the status code, and what
  \<open>ioutil.ReadAll(resp.Body)\<close> returns, the bytes read and the error that stopped the
  read, if any.
\<close>

record Response =
  StatusCode :: int
  bodyBytes :: string
  readErr :: "go_error option"

record Output =
  category :: string
  respBody :: string

subsection \<open>Parameters: what the standard library and the runtime decide\<close>

text \<open>
  A \<open>url.URL\<close>, reduced to the fields the program and the claims look at.
\<close>

record URL =
  Scheme :: string
  Host :: string
  Path :: string

text \<open>
  \<^item> \<open>url_Parse\<close>: \<open>url.Parse\<close>;
  \<^item> \<open>os_Open\<close>: \<open>os.Open\<close>, returning the bytes of the file it opens;
  \<^item> \<open>NewRequest_err\<close>: the error \<open>http.NewRequest\<close> returns for a method and a
    URL it rejects;
  \<^item> \<open>makechan_max\<close>: the largest capacity the runtime allocates for a channel
    of pointers; \<open>make\<close> panics beyond it and on a negative capacity;
  \<^item> \<open>CanonicalHeaderKey\<close>: \<open>http.CanonicalHeaderKey\<close>, the spelling under which a
    header is filed;
  \<^item> \<open>urlErrorOp\<close>: the operation net/http names in a \<open>url.Error\<close> for the method of
    a request (\<open>Post\<close> for \<open>POST\<close>);
  \<^item> \<open>strconv_Quote\<close>: \<open>strconv.Quote\<close>, the verb \<open>%q\<close> of package fmt on a string.
\<close>

record gostd =
  url_Parse :: "string \<Rightarrow> go_error + URL"
  os_Open :: "string \<Rightarrow> go_error + string"
  NewRequest_err :: "string \<Rightarrow> URL \<Rightarrow> go_error option"
  makechan_max :: nat
  CanonicalHeaderKey :: "string \<Rightarrow> string"
  urlErrorOp :: "string \<Rightarrow> string"
  strconv_Quote :: "string \<Rightarrow> string"

text \<open>
  The text of a \<open>url.Error\<close> with operation \<open>Op\<close>, URL \<open>URL\<close> and cause \<open>Err\<close>: its method
  \<open>Error()\<close> returns \<open>fmt.Sprintf("%s %q: %s", e.Op, e.URL, e.Err)\<close>.
\<close>

definition url_Error :: "gostd \<Rightarrow> string \<Rightarrow> string \<Rightarrow> go_error \<Rightarrow> go_error" where
  "url_Error lib Op URL Err = GoError (Op @ '' '' @ strconv_Quote lib URL @ '': '' @ Error Err)"

subsection \<open>The target URL\<close>

text \<open>Lines 445--455 of \<open>main\<close>: the current revision.\<close>

definition main_url :: "gostd \<Rightarrow> string \<Rightarrow> exit + URL" where
  "main_url lib arg =
     (let urlDirty =
            (if \<not> strings_Contains arg ''://'' \<and> \<not> strings_HasPrefix arg ''//''
             then ''//'' @ arg else arg)
      in case url_Parse lib urlDirty of
           Inl err \<Rightarrow> Inl (Exit 1)
         | Inr urlClean \<Rightarrow> Inr urlClean)"

text \<open>Lines 242--258: \<open>checkURL\<close> of the earlier revision.\<close>

definition checkURL :: "gostd \<Rightarrow> string \<Rightarrow> exit + URL" where
  "checkURL lib arg =
     (let uri =
            (if \<not> strings_Contains arg ''://'' \<and> \<not> strings_HasPrefix arg ''//''
             then ''//'' @ arg else arg)
      in case url_Parse lib uri of
           Inl err \<Rightarrow> Inl (Fatalf ''Could not parse url %q: %v'' [''<nil>'', Error err])
         | Inr url \<Rightarrow>
             Inr (if Scheme url = [] then url\<lparr>Scheme := ''http''\<rparr> else url))"

subsection \<open>The request (lines 629--640 and 666--687)\<close>

text \<open>
  The body of the request is an \<open>io.Reader\<close>: a \<open>strings.Reader\<close> or an open file. Either
  is a stream that is read once; the model keeps the bytes not read yet, and for a file
  whether it has been closed.
\<close>

datatype io_Reader = StringsReader string | OsFile string bool

fun unread :: "io_Reader \<Rightarrow> string" where
  "unread (StringsReader s) = s"
| "unread (OsFile s closed) = s"

text \<open>
  What sending a request does to its body: the transport reads the stream to its end and
  closes it (closing a \<open>strings.Reader\<close> does nothing).
\<close>

fun read_to_EOF :: "io_Reader \<Rightarrow> io_Reader" where
  "read_to_EOF (StringsReader s) = StringsReader []"
| "read_to_EOF (OsFile s closed) = OsFile [] True"

definition createHttpBody :: "gostd \<Rightarrow> string \<Rightarrow> exit + io_Reader" where
  "createHttpBody lib body =
     (if strings_HasPrefix body ''@'' then
        (let fileName = drop 1 body in
         case os_Open lib fileName of
           Inl err \<Rightarrow>
             Inl (Fatalf ''[SPOTTER]: Could not read from File %s %v'' [fileName, Error err])
         | Inr bytes \<Rightarrow> Inr (OsFile bytes False))
      else Inr (StringsReader body))"

definition extractHeaderKV :: "string \<Rightarrow> exit + string \<times> string" where
  "extractHeaderKV header =
     (let splitHeader = strings_Split header CHR '':'' in
      if length splitHeader \<noteq> 2
      then Inl (Fatalf ''[SPOTTER]: Malformed Request Header:\<newline>%v'' [header])
      else Inr (splitHeader ! 0, splitHeader ! 1))"

text \<open>
  An \<open>http.Header\<close> maps a key to the values filed under it. \<open>Header.Add(key, value)\<close>
  appends the value to those filed under the canonical spelling of the key.
\<close>

type_synonym http_Header = "string \<rightharpoonup> string list"

definition Header_Add :: "gostd \<Rightarrow> http_Header \<Rightarrow> string \<Rightarrow> string \<Rightarrow> http_Header" where
  "Header_Add lib h key val =
     (let k = CanonicalHeaderKey lib key
      in h(k \<mapsto> (case h k of None \<Rightarrow> [] | Some vals \<Rightarrow> vals) @ [val]))"

record Request =
  Method :: string
  Target :: URL
  Header :: http_Header
  Body :: io_Reader

fun add_headers :: "gostd \<Rightarrow> string list \<Rightarrow> Request \<Rightarrow> exit + Request" where
  "add_headers lib [] req = Inr req"
| "add_headers lib (v # vs) req =
     (case extractHeaderKV v of
        Inl e \<Rightarrow> Inl e
      | Inr (key, val) \<Rightarrow>
          add_headers lib vs (req\<lparr>Header := Header_Add lib (Header req) key val\<rparr>))"

text \<open>
  The arguments of \<open>http.NewRequest\<close> are evaluated first, so a body file that cannot be
  opened ends the process before \<open>NewRequest\<close> runs; the headers come last. \<open>NewRequest\<close>
  takes the empty method for \<open>GET\<close>.
\<close>

definition createHttpRequest ::
    "gostd \<Rightarrow> string \<Rightarrow> string \<Rightarrow> string list \<Rightarrow> URL \<Rightarrow> exit + Request" where
  "createHttpRequest lib requestMethod requestBody requestHeaders url =
     (case createHttpBody lib requestBody of
        Inl e \<Rightarrow> Inl e
      | Inr body \<Rightarrow>
          (case NewRequest_err lib requestMethod url of
             Some err \<Rightarrow>
               Inl (Fatalf ''[SPOTTER]: Couldn't create HTTP Request:\<newline>%v'' [Error err])
           | None \<Rightarrow>
               add_headers lib requestHeaders
                 \<lparr>Method = (if requestMethod = [] then ''GET'' else requestMethod),
                  Target = url, Header = Map.empty, Body = body\<rparr>))"

subsection \<open>The transport and the client (lines 477--513)\<close>

record tls_Config =
  InsecureSkipVerify :: bool

record net_Dialer =
  KeepAlive :: int64
  Timeout :: int64

record http_Transport =
  Dial :: net_Dialer
  ResponseHeaderTimeout :: int64
  TLSClientConfig :: tls_Config
  TLSHandshakeTimeout :: int64
  MaxIdleConnsPerHost :: int

text \<open>A \<open>time.Duration\<close> counts nanoseconds in an \<open>int64\<close>.\<close>

definition time_Second :: int64 where
  "time_Second = 1000000000"

definition main_transport :: "int64 \<Rightarrow> http_Transport" where
  "main_transport requestTimeout =
     (let defaultTLSConfig = \<lparr>InsecureSkipVerify = True\<rparr>;
          dialer = \<lparr>KeepAlive = 30 * time_Second, Timeout = requestTimeout\<rparr>
      in \<lparr>Dial = dialer,
          ResponseHeaderTimeout = requestTimeout,
          TLSClientConfig = defaultTLSConfig,
          TLSHandshakeTimeout = 10 * time_Second,
          MaxIdleConnsPerHost = 10000\<rparr>)"

datatype redirect_verdict = ErrUseLastResponse | Errorf string | Nil

text \<open>
  \<open>httpClient.CheckRedirect\<close> (lines 504--513). Of its arguments only \<open>len(reqList)\<close> is
  used: the number of requests the client has made already for this call of \<open>Do\<close>. The
  closure reads the flag \<open>redirects\<close>, here its first argument.
\<close>

definition CheckRedirect :: "int64 \<Rightarrow> nat \<Rightarrow> redirect_verdict" where
  "CheckRedirect redirects len_reqList =
     (if redirects = - 1 then ErrUseLastResponse
      else if int len_reqList > sint redirects then
        Errorf (''[SPOTTER]: Followed '' @ fmt_d (sint redirects) @ '' redirects. Stopping...'')
      else Nil)"

record http_Client =
  Transport :: http_Transport
  redirects_flag :: int64

definition main_client :: "int64 \<Rightarrow> int64 \<Rightarrow> http_Client" where
  "main_client requestTimeout redirects =
     \<lparr>Transport = main_transport requestTimeout, redirects_flag = redirects\<rparr>"

subsection \<open>\<open>http.Client.Do\<close>\<close>

text \<open>
  What the network does during one call of \<open>Do\<close>: whether the transport gets as far as
  writing the request (and so reads the request's body stream); the redirects the servers
  answer with, in order, each a response and the \<open>Location\<close> it names (one that is present
  and resolves, so that the client consults \<open>CheckRedirect\<close> for it); and what \<open>Do\<close>
  returns when every one of them is followed: an error, or a response the client does not
  treat as a redirect.
\<close>

record hop =
  answer :: Response
  location :: string

record exchange =
  written :: bool
  hops :: "hop list"
  final :: "go_error + Response"

text \<open>
  The redirect loop of \<open>Do\<close>, from the documentation of net/http: before following a
  redirect the client calls \<open>CheckRedirect\<close> with the requests made already (one after the
  first response). \<open>ErrUseLastResponse\<close> makes \<open>Do\<close> return the redirect response itself
  with no error; any other error makes \<open>Do\<close> return that error wrapped into a
  \<open>url.Error\<close>, whose operation comes from the method of the first request and whose URL
  is the \<open>Location\<close> of the redirect that was refused.
\<close>

fun follow ::
    "gostd \<Rightarrow> string \<Rightarrow> int64 \<Rightarrow> nat \<Rightarrow> hop list \<Rightarrow> go_error + Response \<Rightarrow> go_error + Response" where
  "follow lib method redirects made [] fin = fin"
| "follow lib method redirects made (h # hs) fin =
     (case CheckRedirect redirects made of
        ErrUseLastResponse \<Rightarrow> Inr (answer h)
      | Errorf msg \<Rightarrow> Inl (url_Error lib (urlErrorOp lib method) (location h) (GoError msg))
      | Nil \<Rightarrow> follow lib method redirects (Suc made) hs fin)"

text \<open>
  \<open>Do\<close> returns the response or the error, and leaves the request with its body stream
  read when the request was written.
\<close>

definition client_Do ::
    "gostd \<Rightarrow> http_Client \<Rightarrow> Request \<Rightarrow> exchange \<Rightarrow> (go_error + Response) \<times> Request" where
  "client_Do lib cl req ex =
     (follow lib (Method req) (redirects_flag cl) 1 (hops ex) (final ex),
      if written ex then req\<lparr>Body := read_to_EOF (Body req)\<rparr> else req)"

subsection \<open>The shared configuration and one attempt (lines 377--382 and 602--622)\<close>

text \<open>
  A buffered channel: the values sent and not yet received, oldest first, and the
  capacity given to \<open>make\<close>.
\<close>

record chan =
  queue :: "Output list"
  cap :: nat

text \<open>
  \<open>main\<close> builds one \<open>Configuration\<close> and hands every worker a pointer to it, so the
  request with its body stream and the channel are shared by all workers. In the model the
  configuration is part of the state that every step of a worker reads and returns.
\<close>

record Configuration =
  request :: Request
  client :: http_Client
  requests :: int64
  resultBuffer :: chan

definition crunchRequest :: "gostd \<Rightarrow> Configuration \<Rightarrow> exchange \<Rightarrow> Output \<times> Configuration" where
  "crunchRequest lib conf ex =
     (case client_Do lib (client conf) (request conf) ex of
        (res, req') \<Rightarrow>
          (let conf' = conf\<lparr>request := req'\<rparr> in
           case res of
             Inl err \<Rightarrow> (\<lparr>category = ''net'', respBody = Error err\<rparr>, conf')
           | Inr resp \<Rightarrow>
               (case readErr resp of
                  Some err \<Rightarrow> (\<lparr>category = ''bad'', respBody = Error err\<rparr>, conf')
                | None \<Rightarrow>
                    (let statusCode = StatusCode resp in
                     if statusCode \<ge> 200 \<and> statusCode < 300
                     then (\<lparr>category = ''succ'', respBody = bodyBytes resp\<rparr>, conf')
                     else (\<lparr>category = ''bad'', respBody = bodyBytes resp\<rparr>, conf')))))"

subsection \<open>The workers: \<open>bench\<close> (lines 588--594)\<close>

text \<open>
  A worker is a goroutine running \<open>bench\<close>. Between two of its steps any other worker may
  run, so the model keeps where each worker stands:
  \<^item> \<open>AtLoop i\<close>: at the test \<open>i <= conf.requests\<close> of the loop, with loop counter \<open>i\<close>;
  \<^item> \<open>Holding i out\<close>: \<open>crunchRequest\<close> has returned \<open>out\<close> in iteration \<open>i\<close>, and the send
    \<open>conf.resultBuffer <- out\<close> is pending;
  \<^item> \<open>Returned\<close>: the loop is over and the deferred \<open>barrier.Done()\<close> has run.
\<close>

datatype worker = AtLoop int64 | Holding int64 Output | Returned

text \<open>
  The state of the run: the shared configuration, the workers by their id, and a history
  of the attempts made, which the program does not keep: for each call of
  \<open>crunchRequest\<close>, in order, the worker, its loop counter, the body stream of the shared
  request as the call finds it, and the outcome the call returns.
\<close>

record attempt =
  by_worker :: nat
  counter :: int64
  body_found :: io_Reader
  outcome :: Output

record sys =
  config :: Configuration
  workers :: "worker list"
  attempts :: "attempt list"

text \<open>
  The network is a parameter, as the standard library is: \<open>net wid i\<close> is what the
  network does during the attempt that worker \<open>wid\<close> makes in iteration \<open>i\<close>.

  One step of worker \<open>wid\<close>. At the loop test the worker either leaves the loop or makes
  its attempt; an attempt is one step, so two calls of \<open>Do\<close> are not interleaved. A send on the channel goes through when the buffer has room; with the
  buffer full (nobody receives before every worker has returned) the worker stays where it
  is. The comparison \<open>i <= conf.requests\<close> is the signed one and \<open>i++\<close> wraps around.
\<close>

definition bench_step :: "gostd \<Rightarrow> (nat \<Rightarrow> int64 \<Rightarrow> exchange) \<Rightarrow> nat \<Rightarrow> sys \<Rightarrow> sys" where
  "bench_step lib net wid s =
     (if wid \<ge> length (workers s) then s
      else case workers s ! wid of
        AtLoop i \<Rightarrow>
          if sint i \<le> sint (requests (config s)) then
            (case crunchRequest lib (config s) (net wid i) of
               (out, conf') \<Rightarrow>
                 s\<lparr>config := conf',
                   workers := (workers s)[wid := Holding i out],
                   attempts := attempts s @
                     [\<lparr>by_worker = wid, counter = i,
                       body_found = Body (request (config s)), outcome = out\<rparr>]\<rparr>)
          else s\<lparr>workers := (workers s)[wid := Returned]\<rparr>
      | Holding i out \<Rightarrow>
          (let ch = resultBuffer (config s) in
           if length (queue ch) < cap ch then
             s\<lparr>config := (config s)\<lparr>resultBuffer := ch\<lparr>queue := queue ch @ [out]\<rparr>\<rparr>,
               workers := (workers s)[wid := AtLoop (i + 1)]\<rparr>
           else s)
      | Returned \<Rightarrow> s)"

text \<open>A schedule names the worker that takes each step; \<open>run\<close> is the interleaving it gives.\<close>

fun run :: "gostd \<Rightarrow> (nat \<Rightarrow> int64 \<Rightarrow> exchange) \<Rightarrow> nat list \<Rightarrow> sys \<Rightarrow> sys" where
  "run lib net [] s = s"
| "run lib net (wid # ids) s = run lib net ids (bench_step lib net wid s)"

text \<open>A worker whose send cannot go through.\<close>

definition blocked :: "sys \<Rightarrow> nat \<Rightarrow> bool" where
  "blocked s wid =
     (wid < length (workers s) \<and>
      (case workers s ! wid of
         Holding i out \<Rightarrow> cap (resultBuffer (config s)) \<le> length (queue (resultBuffer (config s)))
       | _ \<Rightarrow> False))"

subsection \<open>The orchestrator (lines 515--555)\<close>

text \<open>\<open>make(chan *Output, sz)\<close>.\<close>

definition make_chan :: "gostd \<Rightarrow> int64 \<Rightarrow> exit + chan" where
  "make_chan lib sz =
     (if sint sz < 0 \<or> int (makechan_max lib) < sint sz
      then Inl (Panic ''makechan: size out of range'')
      else Inr \<lparr>queue = [], cap = nat (sint sz)\<rparr>)"

text \<open>
  Lines 515--528: the channel, the configuration, \<open>barrier.Add(clients)\<close>, which panics on
  a negative counter, and one goroutine per client. The product
  \<open>requests*int64(clients)\<close> is a product of 64-bit integers.
\<close>

definition main_spawn :: "gostd \<Rightarrow> Request \<Rightarrow> http_Client \<Rightarrow> int64 \<Rightarrow> int64 \<Rightarrow> exit + sys" where
  "main_spawn lib httpRequest httpClient requests_flag clients =
     (case make_chan lib (requests_flag * clients) of
        Inl e \<Rightarrow> Inl e
      | Inr bufferedChan \<Rightarrow>
          if sint clients < 0 then Inl (Panic ''sync: negative WaitGroup counter'')
          else Inr \<lparr>config = \<lparr>request = httpRequest, client = httpClient,
                             requests = requests_flag, resultBuffer = bufferedChan\<rparr>,
                    workers = replicate (nat (sint clients)) (AtLoop 1),
                    attempts = []\<rparr>)"

text \<open>\<open>barrier.Wait()\<close> returns once every worker has returned.\<close>

definition barrier_open :: "sys \<Rightarrow> bool" where
  "barrier_open s = list_all (\<lambda>w. w = Returned) (workers s)"

text \<open>
  Lines 530--555: the counters and the three lists of bodies, and the loop that receives
  from the closed channel until it is empty. The counters are Go \<open>int\<close>s; they count
  elements of the channel's buffer, fewer than \<open>2^63\<close>, and are modelled by integers.
\<close>

record ResultFile =
  Net :: "string list"
  Bad :: "string list"
  Succ :: "string list"

record tally =
  total :: int
  netFailed :: int
  badFailed :: int
  succ :: int
  resultFile :: ResultFile

definition tally0 :: tally where
  "tally0 = \<lparr>total = 0, netFailed = 0, badFailed = 0, succ = 0,
             resultFile = \<lparr>Net = [], Bad = [], Succ = []\<rparr>\<rparr>"

definition count_output :: "tally \<Rightarrow> Output \<Rightarrow> tally" where
  "count_output t output =
     (let t' =
        (if category output = ''net'' then
           t\<lparr>netFailed := netFailed t + 1,
             resultFile := (resultFile t)\<lparr>Net := Net (resultFile t) @ [respBody output]\<rparr>\<rparr>
         else if category output = ''bad'' then
           t\<lparr>badFailed := badFailed t + 1,
             resultFile := (resultFile t)\<lparr>Bad := Bad (resultFile t) @ [respBody output]\<rparr>\<rparr>
         else if category output = ''succ'' then
           t\<lparr>succ := succ t + 1,
             resultFile := (resultFile t)\<lparr>Succ := Succ (resultFile t) @ [respBody output]\<rparr>\<rparr>
         else t)
      in t'\<lparr>total := total t' + 1\<rparr>)"

definition main_drain :: "Output list \<Rightarrow> tally" where
  "main_drain outputs = foldl count_output tally0 outputs"

text \<open>
  What the orchestrator reports for a run: nothing as long as a worker has not returned,
  and the tally of the channel afterwards.
\<close>

definition main_collect :: "sys \<Rightarrow> tally option" where
  "main_collect s =
     (if barrier_open s then Some (main_drain (queue (resultBuffer (config s)))) else None)"

text \<open>
  The flags and the arguments of the command line, and \<open>main\<close> up to the point where the
  workers are started (lines 427--528). The flags \<open>output\<close>, \<open>dev\<close> and \<open>oh\<close> only decide
  what is printed and written, and are left out.
\<close>

record flags =
  flag_requests :: int64
  flag_clients :: int64
  flag_type :: string
  flag_data :: string
  flag_header :: "string list"
  flag_version :: bool
  flag_reqTimeout :: int64
  flag_redirects :: int64
  args :: "string list"

definition main_startup :: "gostd \<Rightarrow> flags \<Rightarrow> exit + sys" where
  "main_startup lib f =
     (if flag_version f then Inl (Exit 0)
      else if length (args f) \<noteq> 1 then Inl (Exit 1)
      else case main_url lib (args f ! 0) of
        Inl e \<Rightarrow> Inl e
      | Inr urlClean \<Rightarrow>
          (case createHttpRequest lib (flag_type f) (flag_data f) (flag_header f) urlClean of
             Inl e \<Rightarrow> Inl e
           | Inr httpRequest \<Rightarrow>
               main_spawn lib httpRequest
                 (main_client (flag_reqTimeout f) (flag_redirects f))
                 (flag_requests f) (flag_clients f)))"

subsection \<open>The loop of \<open>bench\<close> in the earlier revision (lines 201--235)\<close>

text \<open>
  One iteration, given what \<open>Do\<close> returned and whether the call took two minutes or more.
  A failed read of the body is printed and the bytes read so far are classified.
\<close>

record Output_old =
  category_old :: string
  timedOut :: bool
  respBody_old :: string

definition bench_old :: "go_error + Response \<Rightarrow> bool \<Rightarrow> Output_old" where
  "bench_old res slow =
     (case res of
        Inl err \<Rightarrow> \<lparr>category_old = ''net'', timedOut = slow, respBody_old = Error err\<rparr>
      | Inr resp \<Rightarrow>
          (let statusCode = StatusCode resp in
           if statusCode = 200
           then \<lparr>category_old = ''succ'', timedOut = slow, respBody_old = bodyBytes resp\<rparr>
           else \<lparr>category_old = ''bad'', timedOut = slow, respBody_old = bodyBytes resp\<rparr>))"

subsection \<open>Reference inputs\<close>

text \<open>
  Concrete inputs, used where a statement is evaluated. \<open>demo_lib\<close> is a standard
  library with no files to open, a \<open>NewRequest\<close> that accepts, and a runtime that makes
  channels of up to \<open>2^45\<close> pointers. Its \<open>CanonicalHeaderKey\<close> is the documented one: a
  key of token bytes gets its first letter and every letter after a hyphen in upper case
  and the other letters in lower case, any other key is left as it is. Its \<open>urlErrorOp\<close>
  keeps the first byte of the method and puts the rest in lower case. Its \<open>strconv_Quote\<close>
  is \<open>strconv.Quote\<close> on printable ASCII: double quotes around the string, a backslash in
  front of a double quote or a backslash. \<open>plain_url_Parse\<close> follows
  \<open>url.Parse\<close> on URLs of the shape \<open>[scheme:][//host][/path]\<close>, with no user information,
  query, fragment or escape: the scheme is what \<open>getScheme\<close> of net/url finds (letters, then
  letters, digits, \<open>+\<close>, \<open>-\<close> and \<open>.\<close>, up to the first colon), in lower case; after \<open>//\<close>
  the host runs up to the next slash.
\<close>

definition isLetter :: "char \<Rightarrow> bool" where
  "isLetter ch = (let b = (of_char ch :: nat) in (97 \<le> b \<and> b \<le> 122) \<or> (65 \<le> b \<and> b \<le> 90))"

definition isSchemeMark :: "char \<Rightarrow> bool" where
  "isSchemeMark ch = (let b = (of_char ch :: nat) in
     (48 \<le> b \<and> b \<le> 57) \<or> ch = CHR ''+'' \<or> ch = CHR ''-'' \<or> ch = CHR ''.'')"

definition toLower :: "char \<Rightarrow> char" where
  "toLower ch = (let b = (of_char ch :: nat) in
     if 65 \<le> b \<and> b \<le> 90 then ''abcdefghijklmnopqrstuvwxyz'' ! (b - 65) else ch)"

fun getScheme :: "string \<Rightarrow> string \<Rightarrow> string \<Rightarrow> go_error + string \<times> string" where
  "getScheme rawURL seen [] = Inr ([], rawURL)"
| "getScheme rawURL seen (ch # rest) =
     (if isLetter ch then getScheme rawURL (seen @ [ch]) rest
      else if isSchemeMark ch then
        (if seen = [] then Inr ([], rawURL) else getScheme rawURL (seen @ [ch]) rest)
      else if ch = CHR '':'' then
        (if seen = [] then Inl (GoError ''missing protocol scheme'') else Inr (seen, rest))
      else Inr ([], rawURL))"

definition plain_url_Parse :: "string \<Rightarrow> go_error + URL" where
  "plain_url_Parse rawURL =
     (case getScheme rawURL [] rawURL of
        Inl err \<Rightarrow> Inl err
      | Inr (scheme, rest) \<Rightarrow>
          if strings_HasPrefix rest ''//'' \<and> (scheme \<noteq> [] \<or> \<not> strings_HasPrefix rest ''///'') then
            Inr \<lparr>Scheme = map toLower scheme,
                 Host = takeWhile (\<lambda>ch. ch \<noteq> CHR ''/'') (drop 2 rest),
                 Path = dropWhile (\<lambda>ch. ch \<noteq> CHR ''/'') (drop 2 rest)\<rparr>
          else if scheme = [] \<and> \<not> strings_HasPrefix rest ''/'' \<and>
                  CHR '':'' \<in> set (takeWhile (\<lambda>ch. ch \<noteq> CHR ''/'') rest) then
            Inl (GoError ''first path segment in URL cannot contain colon'')
          else Inr \<lparr>Scheme = map toLower scheme, Host = [], Path = rest\<rparr>)"

definition toUpper :: "char \<Rightarrow> char" where
  "toUpper ch = (let b = (of_char ch :: nat) in
     if 97 \<le> b \<and> b \<le> 122 then ''ABCDEFGHIJKLMNOPQRSTUVWXYZ'' ! (b - 97) else ch)"

definition isTokenByte :: "char \<Rightarrow> bool" where
  "isTokenByte ch =
     (let b = (of_char ch :: nat)
      in (48 \<le> b \<and> b \<le> 57) \<or> (65 \<le> b \<and> b \<le> 90) \<or> (97 \<le> b \<and> b \<le> 122) \<or>
         b \<in> {33, 35, 36, 37, 38, 39, 42, 43, 45, 46, 94, 95, 96, 124, 126})"

fun canonical_from :: "bool \<Rightarrow> string \<Rightarrow> string" where
  "canonical_from upper [] = []"
| "canonical_from upper (ch # rest) =
     (if upper then toUpper ch else toLower ch) # canonical_from (ch = CHR ''-'') rest"

definition plain_CanonicalHeaderKey :: "string \<Rightarrow> string" where
  "plain_CanonicalHeaderKey key =
     (if list_all isTokenByte key then canonical_from True key else key)"

definition plain_urlErrorOp :: "string \<Rightarrow> string" where
  "plain_urlErrorOp method =
     (if method = [] then ''Get'' else take 1 method @ map toLower (drop 1 method))"

definition plain_Quote :: "string \<Rightarrow> string" where
  "plain_Quote str =
     [CHR 0x22] @
     concat (map (\<lambda>ch. if ch = CHR 0x22 \<or> ch = CHR 0x5C then [CHR 0x5C, ch] else [ch]) str) @
     [CHR 0x22]"

definition demo_lib :: gostd where
  "demo_lib =
     \<lparr>url_Parse = plain_url_Parse,
      os_Open = (\<lambda>name. Inl (GoError (''open '' @ name @ '': no such file or directory''))),
      NewRequest_err = (\<lambda>method url. None),
      makechan_max = 35184372088832,
      CanonicalHeaderKey = plain_CanonicalHeaderKey,
      urlErrorOp = plain_urlErrorOp,
      strconv_Quote = plain_Quote\<rparr>"

definition answers :: "int \<Rightarrow> string \<Rightarrow> nat \<Rightarrow> int64 \<Rightarrow> exchange" where
  "answers code text wid i =
     \<lparr>written = True, hops = [],
      final = Inr \<lparr>StatusCode = code, bodyBytes = text, readErr = None\<rparr>\<rparr>"

definition demo_flags :: flags where
  "demo_flags =
     \<lparr>flag_requests = 5, flag_clients = 2, flag_type = ''GET'', flag_data = [],
      flag_header = [''Accept:text/plain''], flag_version = False,
      flag_reqTimeout = 30 * time_Second, flag_redirects = 10,
      args = [''http://example.com/path'']\<rparr>"

definition demo_request :: Request where
  "demo_request =
     \<lparr>Method = ''GET'',
      Target = \<lparr>Scheme = ''http'', Host = ''example.com'', Path = ''/path''\<rparr>,
      Header = Map.empty, Body = StringsReader []\<rparr>"

definition demo_client :: http_Client where
  "demo_client = main_client (30 * time_Second) 10"

definition two_by_eleven :: "nat list" where
  "two_by_eleven = [0, 1, 0, 1, 0, 1, 0, 1, 0, 1, 0, 1, 0, 1, 0, 1, 0, 1, 0, 1, 0, 1]"

text \<open>A configuration, and exchanges: a body cut short, redirects to the given locations
  before the answer, a connection that is refused, and a network that only answers
  worker 0.\<close>

definition demo_conf :: Configuration where
  "demo_conf =
     \<lparr>request = demo_request, client = demo_client, requests = 5,
      resultBuffer = \<lparr>queue = [], cap = 10\<rparr>\<rparr>"

definition moved :: Response where
  "moved = \<lparr>StatusCode = 302, bodyBytes = ''Found'', readErr = None\<rparr>"

definition truncated :: exchange where
  "truncated =
     \<lparr>written = True, hops = [],
      final = Inr \<lparr>StatusCode = 200, bodyBytes = ''par'',
                   readErr = Some (GoError ''unexpected EOF'')\<rparr>\<rparr>"

definition redirected :: "string list \<Rightarrow> exchange" where
  "redirected locations =
     \<lparr>written = True, hops = map (\<lambda>loc. \<lparr>answer = moved, location = loc\<rparr>) locations,
      final = Inr \<lparr>StatusCode = 200, bodyBytes = ''ok'', readErr = None\<rparr>\<rparr>"

definition refused :: exchange where
  "refused = \<lparr>written = False, hops = [], final = Inl (GoError ''connection refused'')\<rparr>"

definition mixed :: "nat \<Rightarrow> int64 \<Rightarrow> exchange" where
  "mixed wid i = (if wid = 0 then answers 200 ''ok'' wid i else refused)"

text \<open>
  A network on which the first attempt of a worker is written and answered with 200, and
  every later attempt meets the exchange \<open>later\<close>.
\<close>

definition answered_once :: "exchange \<Rightarrow> nat \<Rightarrow> int64 \<Rightarrow> exchange" where
  "answered_once later wid i = (if i = 1 then answers 200 ''ok'' wid i else later)"

subsection \<open>Bookkeeping for the proofs about the workers\<close>

text \<open>
  With \<open>N\<close> the value of \<open>conf.requests\<close>: the outcomes a worker has sent, the outcome it
  holds, the attempts it has made, the range its loop counter stays in, and the steps it
  still takes until it has returned.
\<close>

fun sent_of :: "int \<Rightarrow> worker \<Rightarrow> nat" where
  "sent_of N (AtLoop i) = nat (sint i - 1)"
| "sent_of N (Holding i out) = nat (sint i - 1)"
| "sent_of N Returned = nat N"

fun held_of :: "worker \<Rightarrow> Output multiset" where
  "held_of (Holding i out) = {#out#}"
| "held_of w = {#}"

fun made_of :: "int \<Rightarrow> worker \<Rightarrow> int" where
  "made_of N (AtLoop i) = sint i - 1"
| "made_of N (Holding i out) = sint i"
| "made_of N Returned = N"

fun in_range :: "int \<Rightarrow> worker \<Rightarrow> bool" where
  "in_range N (AtLoop i) = (1 \<le> sint i \<and> sint i \<le> N + 1)"
| "in_range N (Holding i out) = (1 \<le> sint i \<and> sint i \<le> N)"
| "in_range N Returned = True"

fun steps_left :: "int \<Rightarrow> worker \<Rightarrow> nat" where
  "steps_left N (AtLoop i) = 2 * nat (N + 1 - sint i) + 1"
| "steps_left N (Holding i out) = 2 * nat (N - sint i) + 2"
| "steps_left N Returned = 0"

text \<open>The loop counters of the attempts a worker has made, in order.\<close>

definition counters_of :: "nat \<Rightarrow> sys \<Rightarrow> int list" where
  "counters_of wid s = map (\<lambda>a. sint (counter a)) (filter (\<lambda>a. by_worker a = wid) (attempts s))"

text \<open>
  The invariant of the pool: the channel was made for \<open>c\<close> workers with \<open>N\<close> attempts
  each, and it holds exactly the outcomes the workers have sent.
\<close>

definition pool_inv :: "int \<Rightarrow> nat \<Rightarrow> sys \<Rightarrow> bool" where
  "pool_inv N c s =
     (sint (requests (config s)) = N \<and>
      length (workers s) = c \<and>
      list_all (in_range N) (workers s) \<and>
      cap (resultBuffer (config s)) = c * nat N \<and>
      length (queue (resultBuffer (config s))) = sum_list (map (sent_of N) (workers s)))"

text \<open>
  The history agrees with the workers: each worker has made its attempts with the loop
  counters \<open>1, 2, ...\<close> in order, and the outcomes of the attempts are those in the channel
  and those held by workers.
\<close>

definition hist_inv :: "int \<Rightarrow> sys \<Rightarrow> bool" where
  "hist_inv N s =
     (list_all (\<lambda>w. counters_of w s = [1..made_of N (workers s ! w)])
        [0..<length (workers s)] \<and>
      mset (queue (resultBuffer (config s))) + sum_list (map held_of (workers s))
        = mset (map outcome (attempts s)))"

text \<open>The three categories, and a worker that holds an outcome of one of them.\<close>

definition known :: "Output \<Rightarrow> bool" where
  "known out = (category out = ''net'' \<or> category out = ''bad'' \<or> category out = ''succ'')"

fun holds_known :: "worker \<Rightarrow> bool" where
  "holds_known (Holding i out) = known out"
| "holds_known w = True"

section \<open>Properties\<close>

subsection \<open>Lemmas: machine integers and sums over the workers\<close>

lemma sint_succ:
  fixes i :: int64
  shows "sint i < 2^63 - 1 \<Longrightarrow> sint (i + 1) = sint i + 1"
proof -
  assume "sint i < 2^63 - 1"
  moreover have "- (2^63) \<le> sint i" using sint_range_size [of i] by (simp add: word_size)
  ultimately have "signed_take_bit 63 (sint i + 1) = sint i + 1"
    by (intro signed_take_bit_int_eq_self) simp_all
  then show ?thesis by (simp add: sint_word_add)
qed

lemma sint_mult_small:
  fixes a b :: int64
  assumes "- (2^63) \<le> sint a * sint b" and "sint a * sint b < 2^63"
  shows "sint (a * b) = sint a * sint b"
  using assms by (simp add: sint_word_mult signed_take_bit_int_eq_self)

lemma sum_list_map_update:
  fixes f :: "'a \<Rightarrow> 'b::comm_monoid_add"
  shows "k < length xs \<Longrightarrow>
    sum_list (map f (xs[k := y])) + f (xs ! k) = sum_list (map f xs) + f y"
proof (induction xs arbitrary: k)
  case Nil
  then show ?case by simp
next
  case (Cons x xs)
  show ?case
  proof (cases k)
    case 0
    then show ?thesis by (simp add: ac_simps)
  next
    case (Suc j)
    with Cons.prems have "j < length xs" by simp
    from Cons.IH [OF this] Suc show ?thesis
      by (simp add: ac_simps)
  qed
qed

lemma sum_list_bound:
  fixes f :: "'a \<Rightarrow> nat"
  shows "list_all (\<lambda>x. f x \<le> b) xs \<Longrightarrow> sum_list (map f xs) \<le> length xs * b"
  by (induction xs) auto

lemma sent_le: "0 \<le> N \<Longrightarrow> in_range N w \<Longrightarrow> sent_of N w \<le> nat N"
  by (cases w) auto

lemma crunchRequest_snd:
  "snd (crunchRequest lib conf ex) = conf\<lparr>request := snd (client_Do lib (client conf) (request conf) ex)\<rparr>"
  by (cases "client_Do lib (client conf) (request conf) ex")
     (simp add: crunchRequest_def Let_def split: sum.splits option.splits)

lemma held_strict:
  assumes "k < length ws" and "list_all (in_range N) ws" and "ws ! k = Holding i out" and "0 \<le> N"
  shows "sum_list (map (sent_of N) ws) < length ws * nat N"
proof -
  let ?ws' = "ws[k := Returned]"
  have upd: "sum_list (map (sent_of N) ?ws') + sent_of N (ws ! k)
             = sum_list (map (sent_of N) ws) + sent_of N Returned"
    using assms(1) by (rule sum_list_map_update)
  have "list_all (in_range N) ?ws'"
    using assms(2) by (auto simp: list_all_iff dest: set_update_subset_insert [THEN subsetD])
  then have "list_all (\<lambda>w. sent_of N w \<le> nat N) ?ws'"
    using assms(4) by (auto simp: list_all_iff intro: sent_le)
  then have "sum_list (map (sent_of N) ?ws') \<le> length ?ws' * nat N"
    by (rule sum_list_bound)
  moreover have "in_range N (ws ! k)"
    using assms(1,2) by (simp add: list_all_length)
  then have "sent_of N (ws ! k) < nat N"
    using assms(3) by simp
  ultimately show ?thesis using upd by simp
qed

lemma not_blocked:
  assumes "0 \<le> N" and "pool_inv N c s"
  shows "\<not> blocked s wid"
proof
  assume b: "blocked s wid"
  then have lt: "wid < length (workers s)" by (simp add: blocked_def)
  from b obtain i out where h: "workers s ! wid = Holding i out"
    and full: "cap (resultBuffer (config s)) \<le> length (queue (resultBuffer (config s)))"
    by (auto simp: blocked_def split: worker.splits)
  from assms(2) have "list_all (in_range N) (workers s)" by (simp add: pool_inv_def)
  from held_strict [OF lt this h assms(1)] assms(2) full show False
    by (simp add: pool_inv_def)
qed

lemma list_all_update:
  "list_all P xs \<Longrightarrow> P y \<Longrightarrow> list_all P (xs[k := y])"
  by (auto simp: list_all_iff dest: set_update_subset_insert [THEN subsetD])

lemma sum_update_same:
  fixes f :: "'a \<Rightarrow> nat"
  assumes "k < length xs" and "f y = f (xs ! k) + d"
  shows "sum_list (map f (xs[k := y])) = sum_list (map f xs) + d"
  using sum_list_map_update [OF assms(1), of f y] assms(2) by simp

lemma step_inv:
  assumes N: "0 \<le> N" "N < 2^63 - 1" and inv: "pool_inv N c s"
  shows "pool_inv N c (bench_step lib net wid s)"
proof (cases "wid < length (workers s)")
  case False
  then show ?thesis using inv by (simp add: bench_step_def)
next
  case lt: True
  from inv have rq: "sint (requests (config s)) = N"
    and len: "length (workers s) = c"
    and rng: "list_all (in_range N) (workers s)"
    and cp: "cap (resultBuffer (config s)) = c * nat N"
    and q: "length (queue (resultBuffer (config s))) = sum_list (map (sent_of N) (workers s))"
    by (simp_all add: pool_inv_def)
  from rng lt have rk: "in_range N (workers s ! wid)" by (simp add: list_all_length)
  show ?thesis
  proof (cases "workers s ! wid")
    case (AtLoop i)
    show ?thesis
    proof (cases "sint i \<le> N")
      case True
      obtain out conf' where cr: "crunchRequest lib (config s) (net wid i) = (out, conf')"
        by (cases "crunchRequest lib (config s) (net wid i)")
      then have conf': "conf' = (config s)\<lparr>request := snd (client_Do lib (client (config s)) (request (config s)) (net wid i))\<rparr>"
        using crunchRequest_snd [of lib "config s" "net wid i"] by simp
      have st: "bench_step lib net wid s =
          s\<lparr>config := conf', workers := (workers s)[wid := Holding i out],
            attempts := attempts s @ [\<lparr>by_worker = wid, counter = i,
              body_found = Body (request (config s)), outcome = out\<rparr>]\<rparr>"
        using lt AtLoop True rq cr by (simp add: bench_step_def)
      have "in_range N (Holding i out)" using rk AtLoop True by simp
      then have r': "list_all (in_range N) ((workers s)[wid := Holding i out])"
        using rng by (rule list_all_update [rotated])
      have "sum_list (map (sent_of N) ((workers s)[wid := Holding i out]))
            = sum_list (map (sent_of N) (workers s)) + 0"
        by (rule sum_update_same [OF lt]) (simp add: AtLoop)
      then show ?thesis
        unfolding st pool_inv_def using rq len r' cp q conf' by simp
    next
      case False
      then have st: "bench_step lib net wid s = s\<lparr>workers := (workers s)[wid := Returned]\<rparr>"
        using lt AtLoop rq by (simp add: bench_step_def)
      have r': "list_all (in_range N) ((workers s)[wid := Returned])"
        using rng by (rule list_all_update) simp
      have "sint i = N + 1" using rk AtLoop False by simp
      then have "sum_list (map (sent_of N) ((workers s)[wid := Returned]))
            = sum_list (map (sent_of N) (workers s)) + 0"
        by (intro sum_update_same [OF lt]) (simp add: AtLoop)
      then show ?thesis
        unfolding st pool_inv_def using rq len r' cp q by simp
    qed
  next
    case (Holding i out)
    have "\<not> blocked s wid" using N(1) inv by (rule not_blocked)
    then have room: "length (queue (resultBuffer (config s))) < cap (resultBuffer (config s))"
      using lt Holding by (simp add: blocked_def)
    then have st: "bench_step lib net wid s =
        s\<lparr>config := (config s)\<lparr>resultBuffer :=
              (resultBuffer (config s))\<lparr>queue := queue (resultBuffer (config s)) @ [out]\<rparr>\<rparr>,
          workers := (workers s)[wid := AtLoop (i + 1)]\<rparr>"
      using lt Holding by (simp add: bench_step_def Let_def)
    have i: "1 \<le> sint i" "sint i \<le> N" using rk Holding by simp_all
    then have i1: "sint (i + 1) = sint i + 1" using N(2) by (intro sint_succ) simp
    have r': "list_all (in_range N) ((workers s)[wid := AtLoop (i + 1)])"
      using rng by (rule list_all_update) (use i i1 in simp)
    have "sum_list (map (sent_of N) ((workers s)[wid := AtLoop (i + 1)]))
            = sum_list (map (sent_of N) (workers s)) + 1"
      by (rule sum_update_same [OF lt]) (use i i1 in \<open>simp add: Holding nat_diff_distrib\<close>)
    then show ?thesis
      unfolding st pool_inv_def using rq len r' cp q by simp
  next
    case Returned
    then show ?thesis using lt inv by (simp add: bench_step_def)
  qed
qed

lemma step_cases:
  assumes N: "0 \<le> N" "N < 2^63 - 1" and inv: "pool_inv N c s" and lt: "wid < length (workers s)"
  obtains
    (attempt) i where "workers s ! wid = AtLoop i" and "1 \<le> sint i" and "sint i \<le> N"
      and "bench_step lib net wid s =
        s\<lparr>config := snd (crunchRequest lib (config s) (net wid i)),
          workers := (workers s)[wid := Holding i (fst (crunchRequest lib (config s) (net wid i)))],
          attempts := attempts s @ [\<lparr>by_worker = wid, counter = i,
            body_found = Body (request (config s)),
            outcome = fst (crunchRequest lib (config s) (net wid i))\<rparr>]\<rparr>"
  | (leave) i where "workers s ! wid = AtLoop i" and "sint i = N + 1"
      and "bench_step lib net wid s = s\<lparr>workers := (workers s)[wid := Returned]\<rparr>"
  | (send) i out where "workers s ! wid = Holding i out" and "1 \<le> sint i" and "sint i \<le> N"
      and "sint (i + 1) = sint i + 1"
      and "bench_step lib net wid s =
        s\<lparr>config := (config s)\<lparr>resultBuffer :=
              (resultBuffer (config s))\<lparr>queue := queue (resultBuffer (config s)) @ [out]\<rparr>\<rparr>,
          workers := (workers s)[wid := AtLoop (i + 1)]\<rparr>"
  | (idle) "workers s ! wid = Returned" and "bench_step lib net wid s = s"
proof -
  from inv have rq: "sint (requests (config s)) = N"
    and rng: "list_all (in_range N) (workers s)"
    by (simp_all add: pool_inv_def)
  from rng lt have rk: "in_range N (workers s ! wid)" by (simp add: list_all_length)
  show thesis
  proof (cases "workers s ! wid")
    case (AtLoop i)
    show ?thesis
    proof (cases "sint i \<le> N")
      case True
      show ?thesis
        by (rule attempt [OF AtLoop _ True])
           (use rk lt AtLoop True rq in \<open>simp_all add: bench_step_def split: prod.splits\<close>)
    next
      case False
      show ?thesis
        by (rule leave [OF AtLoop])
           (use rk lt AtLoop False rq in \<open>simp_all add: bench_step_def\<close>)
    qed
  next
    case (Holding i out)
    have "\<not> blocked s wid" using N(1) inv by (rule not_blocked)
    then have room: "length (queue (resultBuffer (config s))) < cap (resultBuffer (config s))"
      using lt Holding by (simp add: blocked_def)
    have i: "1 \<le> sint i" "sint i \<le> N" using rk Holding by simp_all
    then have i1: "sint (i + 1) = sint i + 1" using N(2) by (intro sint_succ) simp
    show ?thesis
      by (rule send [OF Holding i i1])
         (use lt Holding room in \<open>simp add: bench_step_def Let_def\<close>)
  next
    case Returned
    show ?thesis
      by (rule idle [OF Returned]) (use lt Returned in \<open>simp add: bench_step_def\<close>)
  qed
qed

lemma step_outside: "\<not> wid < length (workers s) \<Longrightarrow> bench_step lib net wid s = s"
  by (simp add: bench_step_def)

lemma step_steps_left:
  assumes N: "0 \<le> N" "N < 2^63 - 1" and inv: "pool_inv N c s" and w: "w < length (workers s)"
  shows "steps_left N (workers (bench_step lib net wid s) ! w) =
         (if w = wid then steps_left N (workers s ! w) - 1 else steps_left N (workers s ! w))"
proof (cases "wid < length (workers s)")
  case False
  with w show ?thesis by (simp add: step_outside)
next
  case True
  from N inv True show ?thesis
  proof (cases rule: step_cases [where net = net and lib = lib])
    case (attempt i)
    then have "nat (N + 1 - sint i) = Suc (nat (N - sint i))" by arith
    with attempt show ?thesis using w by (simp add: nth_list_update)
  next
    case (leave i)
    then show ?thesis using w by (simp add: nth_list_update)
  next
    case (send i out)
    then have "N + 1 - (sint i + 1) = N - sint i" by arith
    with send show ?thesis using w by (simp add: nth_list_update)
  next
    case idle
    then show ?thesis by simp
  qed
qed

lemma run_inv:
  assumes "0 \<le> N" "N < 2^63 - 1"
  shows "pool_inv N c s \<Longrightarrow> pool_inv N c (run lib net sched s)"
  by (induction sched arbitrary: s) (simp_all add: step_inv [OF assms])

lemma run_steps_left:
  assumes N: "0 \<le> N" "N < 2^63 - 1"
  shows "pool_inv N c s \<Longrightarrow> w < c \<Longrightarrow>
    steps_left N (workers (run lib net sched s) ! w) = steps_left N (workers s ! w) - count_list sched w"
proof (induction sched arbitrary: s)
  case Nil
  then show ?case by simp
next
  case (Cons wid sched)
  have inv': "pool_inv N c (bench_step lib net wid s)" using N Cons.prems(1) by (rule step_inv)
  have w: "w < length (workers s)" using Cons.prems by (simp add: pool_inv_def)
  show ?case
    using Cons.IH [OF inv' Cons.prems(2)] step_steps_left [OF N Cons.prems(1) w, where net = net and wid = wid and lib = lib]
    by auto
qed

lemma steps_left_0: "in_range N w \<Longrightarrow> steps_left N w = 0 \<longleftrightarrow> w = Returned"
  by (cases w) auto

lemma barrier_open_iff:
  assumes "pool_inv N c s"
  shows "barrier_open s \<longleftrightarrow> (\<forall>w<c. steps_left N (workers s ! w) = 0)"
  using assms by (auto simp: barrier_open_def pool_inv_def list_all_length steps_left_0)

lemma crunchRequest_keeps:
  "resultBuffer (snd (crunchRequest lib conf ex)) = resultBuffer conf"
  "requests (snd (crunchRequest lib conf ex)) = requests conf"
  "client (snd (crunchRequest lib conf ex)) = client conf"
  by (simp_all add: crunchRequest_snd)

lemma held_update:
  assumes "k < length ws"
  shows "sum_list (map held_of (ws[k := y])) + held_of (ws ! k) = sum_list (map held_of ws) + held_of y"
  using assms by (rule sum_list_map_update)

lemma step_hist:
  assumes N: "0 \<le> N" "N < 2^63 - 1" and inv: "pool_inv N c s" and h: "hist_inv N s"
  shows "hist_inv N (bench_step lib net wid s)"
proof (cases "wid < length (workers s)")
  case False
  then show ?thesis using h by (simp add: step_outside)
next
  case True
  from h have cnt: "\<And>w. w < length (workers s) \<Longrightarrow> counters_of w s = [1..made_of N (workers s ! w)]"
    and ms: "mset (queue (resultBuffer (config s))) + sum_list (map held_of (workers s))
        = mset (map outcome (attempts s))"
    by (simp_all add: hist_inv_def list_all_iff)
  from N inv True show ?thesis
  proof (cases rule: step_cases [where net = net and lib = lib])
    case (attempt i)
    let ?out = "fst (crunchRequest lib (config s) (net wid i))"
    have up: "[1..sint i] = [1..sint i - 1] @ [sint i]"
      using attempt(2) by (simp add: upto_rec2)
    have a: "\<And>w. w < length (workers s) \<Longrightarrow>
        counters_of w (bench_step lib net wid s) = [1..made_of N (workers (bench_step lib net wid s) ! w)]"
      using cnt attempt(1) up True
      by (auto simp add: attempt(4) counters_of_def nth_list_update)
    have "sum_list (map held_of ((workers s)[wid := Holding i ?out])) + held_of (workers s ! wid)
        = sum_list (map held_of (workers s)) + held_of (Holding i ?out)"
      using True by (rule held_update)
    then have b: "sum_list (map held_of ((workers s)[wid := Holding i ?out]))
        = sum_list (map held_of (workers s)) + {#?out#}"
      by (simp add: attempt(1))
    show ?thesis
      unfolding hist_inv_def list_all_iff
      using a b ms by (simp add: attempt(4) crunchRequest_keeps)
  next
    case (leave i)
    have a: "\<And>w. w < length (workers s) \<Longrightarrow>
        counters_of w (bench_step lib net wid s) = [1..made_of N (workers (bench_step lib net wid s) ! w)]"
      using cnt leave(1,2) True
      by (auto simp add: leave(3) counters_of_def nth_list_update)
    have "sum_list (map held_of ((workers s)[wid := Returned])) + held_of (workers s ! wid)
        = sum_list (map held_of (workers s)) + held_of Returned"
      using True by (rule held_update)
    then have b: "sum_list (map held_of ((workers s)[wid := Returned]))
        = sum_list (map held_of (workers s))"
      by (simp add: leave(1))
    show ?thesis
      unfolding hist_inv_def list_all_iff
      using a b ms by (simp add: leave(3))
  next
    case (send i out)
    have a: "\<And>w. w < length (workers s) \<Longrightarrow>
        counters_of w (bench_step lib net wid s) = [1..made_of N (workers (bench_step lib net wid s) ! w)]"
      using cnt send(1,4) True
      by (auto simp add: send(5) counters_of_def nth_list_update)
    have "sum_list (map held_of ((workers s)[wid := AtLoop (i + 1)])) + held_of (workers s ! wid)
        = sum_list (map held_of (workers s)) + held_of (AtLoop (i + 1))"
      using True by (rule held_update)
    then have b: "sum_list (map held_of ((workers s)[wid := AtLoop (i + 1)])) + {#out#}
        = sum_list (map held_of (workers s))"
      by (simp add: send(1))
    show ?thesis
      unfolding hist_inv_def list_all_iff
      using a b [symmetric] ms by (simp add: send(5))
  next
    case idle
    then show ?thesis using h by simp
  qed
qed

lemma run_hist:
  assumes N: "0 \<le> N" "N < 2^63 - 1"
  shows "pool_inv N c s \<Longrightarrow> hist_inv N s \<Longrightarrow> hist_inv N (run lib net sched s)"
proof (induction sched arbitrary: s)
  case Nil
  then show ?case by simp
next
  case (Cons wid sched)
  show ?case
    using Cons.IH [OF step_inv [OF N Cons.prems(1)] step_hist [OF N Cons.prems]] by simp
qed

lemma held_none: "list_all (\<lambda>w. w = Returned) ws \<Longrightarrow> sum_list (map held_of ws) = {#}"
  by (induction ws) auto

lemma sent_all: "list_all (\<lambda>w. w = Returned) ws \<Longrightarrow> sum_list (map (sent_of N) ws) = length ws * nat N"
  by (induction ws) auto

lemma held_replicate: "sum_list (replicate c ({#} :: Output multiset)) = {#}"
  by (induction c) auto

lemma total_foldl: "total (foldl count_output t xs) = total t + int (length xs)"
  by (induction xs arbitrary: t) (simp_all add: count_output_def Let_def)

lemma total_main_drain: "total (main_drain xs) = int (length xs)"
  by (simp add: main_drain_def total_foldl tally0_def)

lemma spawn_ok:
  assumes c: "1 \<le> sint clients" and r: "1 \<le> sint requests_flag"
    and fit: "sint clients * sint requests_flag \<le> int (makechan_max lib)"
    and mx: "makechan_max lib < 2^63 - 1"
  shows "\<exists>s0. main_spawn lib httpRequest httpClient requests_flag clients = Inr s0 \<and>
           cap (resultBuffer (config s0)) = nat (sint clients * sint requests_flag) \<and>
           pool_inv (sint requests_flag) (nat (sint clients)) s0 \<and>
           hist_inv (sint requests_flag) s0"
proof -
  have pos: "0 \<le> sint clients * sint requests_flag" using c r by simp
  have small: "sint clients * sint requests_flag < 2^63" using fit mx by simp
  have prod: "sint (requests_flag * clients) = sint clients * sint requests_flag"
    using pos small sint_mult_small [of requests_flag clients] by (simp add: mult.commute)
  let ?s0 = "\<lparr>config = \<lparr>request = httpRequest, client = httpClient, requests = requests_flag,
                resultBuffer = \<lparr>queue = [], cap = nat (sint clients * sint requests_flag)\<rparr>\<rparr>,
              workers = replicate (nat (sint clients)) (AtLoop 1), attempts = []\<rparr>"
  have sp: "main_spawn lib httpRequest httpClient requests_flag clients = Inr ?s0"
    using c pos fit by (simp add: main_spawn_def make_chan_def prod)
  have "nat (sint clients * sint requests_flag) = nat (sint clients) * nat (sint requests_flag)"
    using c by (simp add: nat_mult_distrib)
  then have "pool_inv (sint requests_flag) (nat (sint clients)) ?s0"
    using r by (simp add: pool_inv_def list_all_length)
  moreover have "hist_inv (sint requests_flag) ?s0"
    by (simp add: hist_inv_def counters_of_def held_replicate list_all_iff)
  ultimately show ?thesis using sp by simp
qed

lemma requests_small:
  assumes c: "1 \<le> sint (clients :: int64)" and r: "1 \<le> sint (requests_flag :: int64)"
    and fit: "sint clients * sint requests_flag \<le> int m" and mx: "m < 2^63 - 1"
  shows "sint requests_flag < 2^63 - 1"
proof -
  have "sint requests_flag * 1 \<le> sint requests_flag * sint clients"
    using c r by (intro mult_left_mono) simp_all
  then show ?thesis using fit mx by (simp add: mult.commute)
qed

subsection \<open>Lemmas: outcomes and the tally\<close>

lemma crunchRequest_fst:
  "fst (crunchRequest lib conf ex) =
     (case fst (client_Do lib (client conf) (request conf) ex) of
        Inl err \<Rightarrow> \<lparr>category = ''net'', respBody = Error err\<rparr>
      | Inr resp \<Rightarrow>
          (case readErr resp of
             Some err \<Rightarrow> \<lparr>category = ''bad'', respBody = Error err\<rparr>
           | None \<Rightarrow>
               if 200 \<le> StatusCode resp \<and> StatusCode resp < 300
               then \<lparr>category = ''succ'', respBody = bodyBytes resp\<rparr>
               else \<lparr>category = ''bad'', respBody = bodyBytes resp\<rparr>))"
  by (cases "client_Do lib (client conf) (request conf) ex")
     (simp add: crunchRequest_def Let_def split: sum.splits option.splits)

lemma crunchRequest_by_status:
  assumes "fst (client_Do lib (client conf) (request conf) ex) = Inr resp" and "readErr resp = None"
  shows "fst (crunchRequest lib conf ex) =
           \<lparr>category = (if 200 \<le> StatusCode resp \<and> StatusCode resp \<le> 299 then ''succ'' else ''bad''),
            respBody = bodyBytes resp\<rparr>"
  using assms by (simp add: crunchRequest_fst)

lemma crunchRequest_known: "known (fst (crunchRequest lib conf ex))"
  by (cases "client_Do lib (client conf) (request conf) ex")
     (simp add: crunchRequest_def known_def Let_def split: sum.splits option.splits)

lemma step_known:
  assumes "list_all known (queue (resultBuffer (config s)))" and "list_all holds_known (workers s)"
  shows "list_all known (queue (resultBuffer (config (bench_step lib net wid s)))) \<and>
         list_all holds_known (workers (bench_step lib net wid s))"
proof (cases "wid < length (workers s)")
  case False
  then show ?thesis using assms by (simp add: bench_step_def)
next
  case True
  show ?thesis
  proof (cases "workers s ! wid")
    case (AtLoop i)
    have "holds_known (Holding i (fst (crunchRequest lib (config s) (net wid i))))"
      by (simp add: crunchRequest_known)
    then show ?thesis
      using assms True AtLoop
      by (simp add: bench_step_def split_beta crunchRequest_keeps list_all_update)
  next
    case (Holding i out)
    with assms(2) True have "known out" by (auto simp: list_all_length)
    then show ?thesis
      using assms True Holding by (simp add: bench_step_def Let_def list_all_update)
  next
    case Returned
    then show ?thesis using assms True by (simp add: bench_step_def)
  qed
qed

lemma run_known:
  "list_all known (queue (resultBuffer (config s))) \<Longrightarrow> list_all holds_known (workers s) \<Longrightarrow>
   list_all known (queue (resultBuffer (config (run lib net sched s))))"
proof (induction sched arbitrary: s)
  case Nil
  then show ?case by simp
next
  case (Cons wid sched)
  from step_known [OF Cons.prems, where net = net and wid = wid and lib = lib] show ?case by (auto intro: Cons.IH)
qed

lemma spawn_known:
  assumes "main_spawn lib httpRequest httpClient requests_flag clients = Inr s0"
  shows "list_all known (queue (resultBuffer (config s0)))" and "list_all holds_known (workers s0)"
  using assms
  by (auto simp: main_spawn_def make_chan_def list_all_length split: sum.splits if_splits)

lemma drain_counts:
  "netFailed (foldl count_output t xs)
     = netFailed t + int (length (filter (\<lambda>out. category out = ''net'') xs))"
  "badFailed (foldl count_output t xs)
     = badFailed t + int (length (filter (\<lambda>out. category out = ''bad'') xs))"
  "succ (foldl count_output t xs)
     = succ t + int (length (filter (\<lambda>out. category out = ''succ'') xs))"
  by (induction xs arbitrary: t) (simp_all add: count_output_def Let_def)

lemma main_drain_counts:
  "netFailed (main_drain xs) = int (length (filter (\<lambda>out. category out = ''net'') xs))"
  "badFailed (main_drain xs) = int (length (filter (\<lambda>out. category out = ''bad'') xs))"
  "succ (main_drain xs) = int (length (filter (\<lambda>out. category out = ''succ'') xs))"
  by (simp_all add: main_drain_def drain_counts tally0_def)

lemma known_split:
  "list_all known xs \<Longrightarrow>
   length (filter (\<lambda>out. category out = ''succ'') xs)
   + length (filter (\<lambda>out. category out = ''bad'') xs)
   + length (filter (\<lambda>out. category out = ''net'') xs) = length xs"
  by (induction xs) (auto simp: known_def)

lemma filter_length_mset:
  "mset xs = mset ys \<Longrightarrow> length (filter P xs) = length (filter P ys)"
  by (metis mset_filter size_mset)

lemma known_mset: "mset xs = mset ys \<Longrightarrow> list_all known xs \<Longrightarrow> list_all known ys"
  by (metis list_all_iff mset_eq_setD)

subsection \<open>Lemmas: redirects\<close>



subsection \<open>Lemmas: headers\<close>

lemma Split_nonempty: "strings_Split s sep \<noteq> []"
  by (induction s) (auto split: list.splits)

lemma Split_length: "length (strings_Split s sep) = Suc (count_list s sep)"
  by (induction s) (auto split: list.splits simp: Split_nonempty)

lemma Join_Split: "strings_Join (strings_Split s sep) sep = s"
proof (induction s)
  case Nil
  then show ?case by simp
next
  case (Cons ch s)
  obtain p ps where sp: "strings_Split s sep = p # ps"
    using Split_nonempty [of s sep] by (cases "strings_Split s sep") auto
  with Cons show ?case by (cases ps) auto
qed

lemma Split_two:
  assumes "count_list h sep = 1"
  obtains k v where "strings_Split h sep = [k, v]" and "h = k @ sep # v"
proof -
  have "length (strings_Split h sep) = 2" using assms by (simp add: Split_length)
  then obtain k v where kv: "strings_Split h sep = [k, v]"
    by (auto simp: length_Suc_conv numeral_2_eq_2)
  have "h = k @ sep # v" using Join_Split [of h sep] kv by simp
  with kv show thesis by (rule that)
qed

lemma extract_malformed:
  "count_list h CHR '':'' \<noteq> 1 \<Longrightarrow>
   extractHeaderKV h = Inl (Fatalf ''[SPOTTER]: Malformed Request Header:\<newline>%v'' [h])"
  by (simp add: extractHeaderKV_def Split_length)

lemma extract_wellformed:
  assumes "count_list h CHR '':'' = 1"
  obtains k v where "extractHeaderKV h = Inr (k, v)" and "h = k @ '':'' @ v"
proof -
  from assms obtain k v where kv: "strings_Split h CHR '':'' = [k, v]" "h = k @ CHR '':'' # v"
    by (rule Split_two)
  then have "extractHeaderKV h = Inr (k, v)" by (simp add: extractHeaderKV_def)
  with kv(2) show thesis by (intro that) simp_all
qed

lemma extract_parts:
  assumes "count_list h CHR '':'' = 1"
  shows "extractHeaderKV h =
     Inr (takeWhile (\<lambda>ch. ch \<noteq> CHR '':'') h, drop 1 (dropWhile (\<lambda>ch. ch \<noteq> CHR '':'') h))"
proof -
  from assms obtain k v where kv: "extractHeaderKV h = Inr (k, v)" "h = k @ '':'' @ v"
    by (rule extract_wellformed)
  from assms kv(2) have "count_list k CHR '':'' = 0" by simp
  then have "\<forall>ch\<in>set k. ch \<noteq> CHR '':''" by (auto simp: count_list_0_iff)
  then have "takeWhile (\<lambda>ch. ch \<noteq> CHR '':'') h = k"
    and "dropWhile (\<lambda>ch. ch \<noteq> CHR '':'') h = '':'' @ v"
    using kv(2) by (simp_all add: takeWhile_append2 dropWhile_append2)
  with kv(1) show ?thesis by simp
qed

lemma add_headers_malformed:
  "list_all (\<lambda>h. count_list h CHR '':'' = 1) good \<Longrightarrow> count_list h CHR '':'' \<noteq> 1 \<Longrightarrow>
   add_headers lib (good @ h # rest) req
     = Inl (Fatalf ''[SPOTTER]: Malformed Request Header:\<newline>%v'' [h])"
proof (induction good arbitrary: req)
  case Nil
  then show ?case by (simp add: extract_malformed)
next
  case (Cons g good)
  from Cons.prems(1) have "count_list g CHR '':'' = 1" by simp
  then obtain k v where "extractHeaderKV g = Inr (k, v)" by (rule extract_wellformed)
  with Cons show ?case by simp
qed

lemma add_headers_aborts:
  "h \<in> set hs \<Longrightarrow> count_list h CHR '':'' \<noteq> 1 \<Longrightarrow>
   \<exists>g. add_headers lib hs req = Inl (Fatalf ''[SPOTTER]: Malformed Request Header:\<newline>%v'' [g])"
proof (induction hs arbitrary: req)
  case Nil
  then show ?case by simp
next
  case (Cons g hs)
  show ?case
  proof (cases "count_list g CHR '':'' = 1")
    case False
    then show ?thesis by (simp add: extract_malformed)
  next
    case True
    with Cons.prems have "h \<in> set hs" by auto
    from Cons.IH [OF this Cons.prems(2)] extract_parts [OF True] show ?thesis by simp
  qed
qed

lemma add_headers_wellformed:
  "list_all (\<lambda>h. count_list h CHR '':'' = 1) hs \<Longrightarrow>
   \<exists>req'. add_headers lib hs req = Inr req' \<and> Method req' = Method req \<and> Target req' = Target req \<and>
      Body req' = Body req \<and>
      (\<forall>ck. Header req' ck =
         (let vals = map (\<lambda>g. drop 1 (dropWhile (\<lambda>ch. ch \<noteq> CHR '':'') g))
                       (filter (\<lambda>g. CanonicalHeaderKey lib (takeWhile (\<lambda>ch. ch \<noteq> CHR '':'') g) = ck) hs)
          in if vals = [] then Header req ck
             else Some ((case Header req ck of None \<Rightarrow> [] | Some old \<Rightarrow> old) @ vals)))"
proof (induction hs arbitrary: req)
  case Nil
  then show ?case by simp
next
  case (Cons g hs)
  from Cons.prems have g: "count_list g CHR '':'' = 1"
    and rest: "list_all (\<lambda>h. count_list h CHR '':'' = 1) hs" by simp_all
  let ?k = "takeWhile (\<lambda>ch. ch \<noteq> CHR '':'') g"
  let ?v = "drop 1 (dropWhile (\<lambda>ch. ch \<noteq> CHR '':'') g)"
  let ?req = "req\<lparr>Header := Header_Add lib (Header req) ?k ?v\<rparr>"
  from Cons.IH [OF rest, of ?req] obtain req' where
    r: "add_headers lib hs ?req = Inr req'" "Method req' = Method req" "Target req' = Target req"
       "Body req' = Body req"
    and hd: "\<And>ck. Header req' ck =
         (let vals = map (\<lambda>g. drop 1 (dropWhile (\<lambda>ch. ch \<noteq> CHR '':'') g))
                       (filter (\<lambda>g. CanonicalHeaderKey lib (takeWhile (\<lambda>ch. ch \<noteq> CHR '':'') g) = ck) hs)
          in if vals = [] then Header ?req ck
             else Some ((case Header ?req ck of None \<Rightarrow> [] | Some old \<Rightarrow> old) @ vals))"
    by auto
  have "add_headers lib (g # hs) req = Inr req'"
    using extract_parts [OF g] r(1) by simp
  moreover have "Header req' ck =
         (let vals = map (\<lambda>g. drop 1 (dropWhile (\<lambda>ch. ch \<noteq> CHR '':'') g))
                       (filter (\<lambda>g. CanonicalHeaderKey lib (takeWhile (\<lambda>ch. ch \<noteq> CHR '':'') g) = ck) (g # hs))
          in if vals = [] then Header req ck
             else Some ((case Header req ck of None \<Rightarrow> [] | Some old \<Rightarrow> old) @ vals))" for ck
    unfolding hd [of ck]
    by (simp add: Header_Add_def Let_def split: option.splits)
  ultimately show ?case using r(2-4) by blast
qed

lemma createHttpRequest_aborts:
  assumes "h \<in> set hs" and "count_list h CHR '':'' \<noteq> 1"
  shows "\<exists>fmt vs. createHttpRequest lib requestMethod requestBody hs url = Inl (Fatalf fmt vs)"
proof (cases "createHttpBody lib requestBody")
  case (Inl e)
  then show ?thesis
    by (auto simp: createHttpRequest_def createHttpBody_def Let_def split: if_splits sum.splits)
next
  case (Inr body)
  show ?thesis
  proof (cases "NewRequest_err lib requestMethod url")
    case (Some err)
    with Inr show ?thesis by (simp add: createHttpRequest_def)
  next
    case None
    with Inr add_headers_aborts [OF assms, of lib] show ?thesis
      by (fastforce simp: createHttpRequest_def)
  qed
qed

lemma main_url_exit: "main_url lib arg = Inl e \<Longrightarrow> e = Exit 1"
  by (auto simp: main_url_def Let_def split: sum.splits)

subsection \<open>Lemmas: the reference inputs\<close>

lemma replicate_2: "replicate 2 x = [x, x]"
  by (simp add: eval_nat_numeral)

lemma replicate_3: "replicate 3 x = [x, x, x]"
  by (simp add: eval_nat_numeral)

lemma replicate_4: "replicate 4 x = [x, x, x, x]"
  by (simp add: eval_nat_numeral)

lemmas demo_simps =
  demo_conf_def demo_request_def demo_client_def main_client_def main_transport_def
  time_Second_def truncated_def moved_def redirected_def answers_def


lemmas startup_eval =
  main_startup_def demo_lib_def demo_flags_def main_url_def strings_HasPrefix_def
  plain_url_Parse_def isLetter_def isSchemeMark_def toLower_def createHttpRequest_def
  createHttpBody_def extractHeaderKV_def main_spawn_def make_chan_def main_client_def
  main_transport_def time_Second_def

lemma demo_url:
  "main_url demo_lib ''http://example.com/path''
     = Inr \<lparr>Scheme = ''http'', Host = ''example.com'', Path = ''/path''\<rparr>"
  by (simp add: main_url_def demo_lib_def strings_HasPrefix_def plain_url_Parse_def
        isLetter_def isSchemeMark_def toLower_def)

lemmas run_eval =
  bench_step_def crunchRequest_def client_Do_def Let_def
  demo_request_def demo_client_def main_client_def main_transport_def
  time_Second_def answers_def refused_def mixed_def

lemma spawn_1_2:
  "main_spawn demo_lib demo_request demo_client 1 2 =
     Inr \<lparr>config = \<lparr>request = demo_request, client = demo_client, requests = 1,
                      resultBuffer = \<lparr>queue = [], cap = 2\<rparr>\<rparr>,
          workers = [AtLoop 1, AtLoop 1], attempts = []\<rparr>"
  by (simp add: main_spawn_def make_chan_def demo_lib_def replicate_2)

lemma spawn_overflow:
  "main_spawn demo_lib demo_request demo_client 4611686018427387905 4 = Inr
     \<lparr>config = \<lparr>request = demo_request, client = demo_client, requests = 4611686018427387905,
                resultBuffer = \<lparr>queue = [], cap = 4\<rparr>\<rparr>,
      workers = [AtLoop 1, AtLoop 1, AtLoop 1, AtLoop 1], attempts = []\<rparr>"
  by (simp add: main_spawn_def make_chan_def demo_lib_def replicate_4)

subsection \<open>C1: every worker fills its quota, and the orchestrator drains them all\<close>

text \<open>
  C1. As stated, for all \<open>clients \<ge> 1\<close> and \<open>requests \<ge> 1\<close>, the claim fails: the capacity
  of the channel is the 64-bit product \<open>requests*int64(clients)\<close>, and \<open>make\<close> panics when
  it is negative or too large (see the counterexample below). The theorem is the claim for
  the configurations whose product the runtime grants as a capacity, with that bound
  below \<open>2^63 - 1\<close>. Then the workers are started, and for every network and every
  interleaving of their steps:
  \<^item> the barrier opens exactly when every worker has been given its \<open>2 * requests + 1\<close>
    steps (an attempt and a send per iteration, and the last loop test), so every worker
    returns and none stops early, whatever its attempts result in;
  \<^item> once it is open, each worker has made the attempts with loop counters
    \<open>1, ..., requests\<close>, in this order and no other; the outcomes in the channel are the
    outcomes of the attempts, one for each; there are \<open>clients * requests\<close> of them, and
    the orchestrator's \<open>total\<close> is \<open>clients * requests\<close>.
\<close>

theorem workers_complete_quota:
  assumes c: "1 \<le> sint clients" and r: "1 \<le> sint requests_flag"
    and fit: "sint clients * sint requests_flag \<le> int (makechan_max lib)"
    and mx: "makechan_max lib < 2^63 - 1"
  shows "\<exists>s0. main_spawn lib httpRequest httpClient requests_flag clients = Inr s0 \<and>
    (\<forall>net sched.
       (barrier_open (run lib net sched s0) \<longleftrightarrow>
          (\<forall>w<nat (sint clients). 2 * nat (sint requests_flag) + 1 \<le> count_list sched w)) \<and>
       (barrier_open (run lib net sched s0) \<longrightarrow>
          (\<forall>w<nat (sint clients). counters_of w (run lib net sched s0) = [1..sint requests_flag]) \<and>
          mset (queue (resultBuffer (config (run lib net sched s0))))
            = mset (map outcome (attempts (run lib net sched s0))) \<and>
          int (length (queue (resultBuffer (config (run lib net sched s0)))))
            = sint clients * sint requests_flag \<and>
          (\<exists>t. main_collect (run lib net sched s0) = Some t \<and>
               total t = sint clients * sint requests_flag)))"
proof -
  let ?N = "sint requests_flag" and ?c = "nat (sint clients)"
  have N: "0 \<le> ?N" "?N < 2^63 - 1"
    using r requests_small [OF c r fit mx] by simp_all
  from spawn_ok [OF c r fit mx, of httpRequest httpClient]
  obtain s0 where sp: "main_spawn lib httpRequest httpClient requests_flag clients = Inr s0"
    and p0: "pool_inv ?N ?c s0" and h0: "hist_inv ?N s0" by blast
  have w0: "\<And>w. w < ?c \<Longrightarrow> workers s0 ! w = AtLoop 1"
    using sp c by (auto simp: main_spawn_def split: sum.splits if_splits)
  have "\<And>net sched. 
       (barrier_open (run lib net sched s0) \<longleftrightarrow>
          (\<forall>w<?c. 2 * nat ?N + 1 \<le> count_list sched w)) \<and>
       (barrier_open (run lib net sched s0) \<longrightarrow>
          (\<forall>w<?c. counters_of w (run lib net sched s0) = [1..?N]) \<and>
          mset (queue (resultBuffer (config (run lib net sched s0))))
            = mset (map outcome (attempts (run lib net sched s0))) \<and>
          int (length (queue (resultBuffer (config (run lib net sched s0)))))
            = sint clients * ?N \<and>
          (\<exists>t. main_collect (run lib net sched s0) = Some t \<and> total t = sint clients * ?N))"
  proof -
    fix net sched
    let ?s = "run lib net sched s0"
    have p: "pool_inv ?N ?c ?s" using N p0 by (rule run_inv)
    have h: "hist_inv ?N ?s" using N p0 h0 by (rule run_hist)
    have left: "\<And>w. w < ?c \<Longrightarrow> steps_left ?N (workers ?s ! w) = 2 * nat ?N + 1 - count_list sched w"
      using run_steps_left [OF N p0, where net = net and sched = sched and lib = lib] w0 by simp
    have open_iff: "barrier_open ?s \<longleftrightarrow> (\<forall>w<?c. 2 * nat ?N + 1 \<le> count_list sched w)"
      using barrier_open_iff [OF p] left by auto
    have fin: "(\<forall>w<?c. counters_of w ?s = [1..?N]) \<and>
          mset (queue (resultBuffer (config ?s))) = mset (map outcome (attempts ?s)) \<and>
          int (length (queue (resultBuffer (config ?s)))) = sint clients * ?N \<and>
          (\<exists>t. main_collect ?s = Some t \<and> total t = sint clients * ?N)"
      if bo: "barrier_open ?s"
    proof -
      from bo have all: "list_all (\<lambda>w. w = Returned) (workers ?s)" by (simp add: barrier_open_def)
      have len: "length (workers ?s) = ?c" using p by (simp add: pool_inv_def)
      have cnt: "\<forall>w<?c. counters_of w ?s = [1..?N]"
        using h all len by (auto simp: hist_inv_def list_all_iff all_set_conv_all_nth)
      have ms: "mset (queue (resultBuffer (config ?s))) = mset (map outcome (attempts ?s))"
        using h held_none [OF all] by (simp add: hist_inv_def)
      have "length (queue (resultBuffer (config ?s))) = ?c * nat ?N"
        using p sent_all [OF all, of ?N] by (simp add: pool_inv_def)
      then have ql: "int (length (queue (resultBuffer (config ?s)))) = sint clients * ?N"
        using c r by simp
      have "main_collect ?s = Some (main_drain (queue (resultBuffer (config ?s))))"
        using bo by (simp add: main_collect_def)
      then have "\<exists>t. main_collect ?s = Some t \<and> total t = sint clients * ?N"
        using ql by (simp add: total_main_drain)
      with cnt ms ql show ?thesis by blast
    qed
    from open_iff fin
    show "(barrier_open ?s \<longleftrightarrow> (\<forall>w<?c. 2 * nat ?N + 1 \<le> count_list sched w)) \<and>
       (barrier_open ?s \<longrightarrow>
          (\<forall>w<?c. counters_of w ?s = [1..?N]) \<and>
          mset (queue (resultBuffer (config ?s))) = mset (map outcome (attempts ?s)) \<and>
          int (length (queue (resultBuffer (config ?s)))) = sint clients * ?N \<and>
          (\<exists>t. main_collect ?s = Some t \<and> total t = sint clients * ?N))"
      by blast
  qed
  with sp show ?thesis by blast
qed

text \<open>Two clients with five requests each, all answered with status 200.\<close>

theorem workers_complete_quota_witness:
  "(case main_spawn demo_lib demo_request demo_client 5 2 of
      Inl e \<Rightarrow> False
    | Inr s0 \<Rightarrow>
        barrier_open (run demo_lib (answers 200 ''ok'') two_by_eleven s0) \<and>
        counters_of 0 (run demo_lib (answers 200 ''ok'') two_by_eleven s0) = [1, 2, 3, 4, 5] \<and>
        counters_of 1 (run demo_lib (answers 200 ''ok'') two_by_eleven s0) = [1, 2, 3, 4, 5] \<and>
        length (queue (resultBuffer (config (run demo_lib (answers 200 ''ok'') two_by_eleven s0)))) = 10 \<and>
        map_option total (main_collect (run demo_lib (answers 200 ''ok'') two_by_eleven s0)) = Some 10)"
proof -
  have h: "1 \<le> sint (2 :: int64)" "1 \<le> sint (5 :: int64)"
    "sint (2 :: int64) * sint (5 :: int64) \<le> int (makechan_max demo_lib)"
    "makechan_max demo_lib < 2^63 - 1"
    by (simp_all add: demo_lib_def)
  from workers_complete_quota [OF h, of demo_request demo_client]
  obtain s0 where sp: "main_spawn demo_lib demo_request demo_client 5 2 = Inr s0"
    and all: "\<And>net sched.
       (barrier_open (run demo_lib net sched s0) \<longleftrightarrow>
          (\<forall>w<nat (sint (2 :: int64)). 2 * nat (sint (5 :: int64)) + 1 \<le> count_list sched w)) \<and>
       (barrier_open (run demo_lib net sched s0) \<longrightarrow>
          (\<forall>w<nat (sint (2 :: int64)). counters_of w (run demo_lib net sched s0) = [1..sint (5 :: int64)]) \<and>
          mset (queue (resultBuffer (config (run demo_lib net sched s0))))
            = mset (map outcome (attempts (run demo_lib net sched s0))) \<and>
          int (length (queue (resultBuffer (config (run demo_lib net sched s0)))))
            = sint (2 :: int64) * sint (5 :: int64) \<and>
          (\<exists>t. main_collect (run demo_lib net sched s0) = Some t \<and>
               total t = sint (2 :: int64) * sint (5 :: int64)))"
    by blast
  let ?s = "run demo_lib (answers 200 ''ok'') two_by_eleven s0"
  have cnt: "\<forall>w<nat (sint (2 :: int64)). 2 * nat (sint (5 :: int64)) + 1 \<le> count_list two_by_eleven w"
    by (simp add: two_by_eleven_def less_Suc_eq numeral_2_eq_2)
  with all [of "answers 200 ''ok''" two_by_eleven] have bo: "barrier_open ?s" by blast
  with all [of "answers 200 ''ok''" two_by_eleven]
  have c: "\<forall>w<nat (sint (2 :: int64)). counters_of w ?s = [1..sint (5 :: int64)]"
    and l: "int (length (queue (resultBuffer (config ?s)))) = sint (2 :: int64) * sint (5 :: int64)"
    and t: "\<exists>t. main_collect ?s = Some t \<and> total t = sint (2 :: int64) * sint (5 :: int64)"
    by blast+
  have up: "[1..(5::int)] = [1, 2, 3, 4, 5]" by (simp add: upto.simps)
  from c have "counters_of 0 ?s = [1, 2, 3, 4, 5]" "counters_of 1 ?s = [1, 2, 3, 4, 5]"
    by (simp_all add: up)
  moreover from l have "length (queue (resultBuffer (config ?s))) = 10" by simp
  moreover from t have "map_option total (main_collect ?s) = Some 10" by auto
  ultimately show ?thesis using sp bo by simp
qed

text \<open>
  Two clients with \<open>2^62\<close> requests each: the product wraps around to \<open>-2^63\<close>, \<open>make\<close>
  panics, and no worker is started. Likewise for one client with \<open>2^45 + 1\<close> requests, one
  more than the runtime of \<open>demo_lib\<close> allocates.
\<close>

theorem workers_complete_quota_counterexample:
  "1 \<le> sint (2 :: int64) \<and> 1 \<le> sint (4611686018427387904 :: int64) \<and>
   main_spawn demo_lib demo_request demo_client 4611686018427387904 2
     = Inl (Panic ''makechan: size out of range'') \<and>
   1 \<le> sint (1 :: int64) \<and> 1 \<le> sint (35184372088833 :: int64) \<and>
   main_spawn demo_lib demo_request demo_client 35184372088833 1
     = Inl (Panic ''makechan: size out of range'')"
  by (simp add: main_spawn_def make_chan_def demo_lib_def)

subsection \<open>C2: the status code decides between success and bad status\<close>

text \<open>
  C2. The claim holds for \<open>crunchRequest\<close> (lemma \<open>crunchRequest_by_status\<close>). The loop of
  \<open>bench\<close> in the earlier revision (lines 225--230), which the claim also refers to, tests
  \<open>statusCode == 200\<close>: a response with status 201 whose body was read is classified
  \<open>bad\<close> there, and \<open>succ\<close> by \<open>crunchRequest\<close>.
\<close>

theorem bench_old_only_200:
  "category_old
     (bench_old (Inr \<lparr>StatusCode = 201, bodyBytes = ''created'', readErr = None\<rparr>) False)
     = ''bad'' \<and>
   category
     (fst (crunchRequest lib conf
        \<lparr>written = True, hops = [],
         final = Inr \<lparr>StatusCode = 201, bodyBytes = ''created'', readErr = None\<rparr>\<rparr>))
     = ''succ''"
  by (simp add: bench_old_def crunchRequest_fst client_Do_def)

subsection \<open>C3: the redirect policy\<close>



subsection \<open>C4: the body stream of the request\<close>

text \<open>
  C4. The code does not do what the claim says. \<open>createHttpBody\<close> runs once, in
  \<open>createHttpRequest\<close>, and every attempt of every worker passes the same request, with
  that one stream, to \<open>Do\<close>. With the target \<open>http://example.com/path\<close>, the method
  \<open>POST\<close>, the body \<open>abc\<close>, one client and two requests, and a first attempt that is
  written and answered: the first attempt finds the stream unread, and the second finds it
  at its end, whatever the network does with the second attempt.
\<close>

theorem body_stream_shared:
  "(case main_startup demo_lib
           (demo_flags\<lparr>flag_type := ''POST'', flag_data := ''abc'',
              flag_clients := 1, flag_requests := 2\<rparr>) of
      Inl e \<Rightarrow> False
    | Inr s0 \<Rightarrow>
        Target (request (config s0))
          = \<lparr>Scheme = ''http'', Host = ''example.com'', Path = ''/path''\<rparr> \<and>
        map (\<lambda>a. (counter a, unread (body_found a)))
          (attempts (run demo_lib (answered_once later) [0, 0, 0, 0, 0] s0))
        = [(1, ''abc''), (2, [])])"
  by (simp add: startup_eval)
     (simp add: bench_step_def split_beta crunchRequest_snd client_Do_def answered_once_def
        answers_def)

subsection \<open>C5: a target URL without scheme\<close>

text \<open>
  C5. The code does not do what the claim says. For \<open>example.com/path\<close> the current
  \<open>main\<close> (lines 445--455) puts \<open>//\<close> in front and parses, and leaves the scheme empty;
  \<open>checkURL\<close> of the earlier revision (lines 242--258) goes on to set the scheme to
  \<open>http\<close>.
\<close>

theorem main_url_keeps_empty_scheme:
  "main_url demo_lib ''example.com/path''
     = Inr \<lparr>Scheme = [], Host = ''example.com'', Path = ''/path''\<rparr> \<and>
   checkURL demo_lib ''example.com/path''
     = Inr \<lparr>Scheme = ''http'', Host = ''example.com'', Path = ''/path''\<rparr>"
  by (simp add: main_url_def checkURL_def demo_lib_def strings_HasPrefix_def plain_url_Parse_def
        isLetter_def isSchemeMark_def toLower_def)

subsection \<open>C6: a response whose body cannot be read\<close>

text \<open>
  C6. When \<open>Do\<close> returns a response and reading its body fails, the outcome of the attempt
  has category \<open>bad\<close> and carries the text of the read error; it is neither \<open>succ\<close> nor
  \<open>net\<close>, whatever the status code.
\<close>

theorem crunchRequest_read_failure:
  assumes "fst (client_Do lib (client conf) (request conf) ex) = Inr resp"
    and "readErr resp = Some err"
  shows "fst (crunchRequest lib conf ex) = \<lparr>category = ''bad'', respBody = Error err\<rparr>
         \<and> category (fst (crunchRequest lib conf ex)) \<noteq> ''succ''
         \<and> category (fst (crunchRequest lib conf ex)) \<noteq> ''net''"
  using assms
  by (cases "client_Do lib (client conf) (request conf) ex") (simp add: crunchRequest_def Let_def)

text \<open>A response with status 200 whose body breaks off.\<close>

theorem crunchRequest_read_failure_witness:
  "fst (crunchRequest demo_lib demo_conf truncated)
     = \<lparr>category = ''bad'', respBody = ''unexpected EOF''\<rparr>"
  using crunchRequest_read_failure [of demo_lib demo_conf truncated
      "\<lparr>StatusCode = 200, bodyBytes = ''par'', readErr = Some (GoError ''unexpected EOF'')\<rparr>"
      "GoError ''unexpected EOF''"]
  by (simp add: demo_simps client_Do_def)

subsection \<open>C7: malformed headers end startup\<close>

text \<open>
  C7. A header entry is well formed when it holds exactly one colon. The claim does not
  hold as it stands: with \<open>-version\<close> the process prints the version and exits with
  status 0 before it looks at the headers, a body file that cannot be opened ends the
  process with another error first, and \<open>Header.Add\<close> files a value under the canonical
  spelling of its key, so the key \<open>x-foo\<close> is not in the request as it was written. What
  holds:
  \<^item> With a malformed entry among the headers, startup ends the process: no state with
    workers comes into being, so no request is sent. The process exits with status 0
    exactly when \<open>-version\<close> is set.
  \<^item> When startup gets as far as the headers (no \<open>-version\<close>, one argument, the URL
    parses, the body opens, \<open>NewRequest\<close> accepts), it ends with
    \<open>log.Fatalf("[SPOTTER]: Malformed Request Header:\n%v", h)\<close> for the first malformed
    entry \<open>h\<close>.
  \<^item> When all entries are well formed, the request that \<open>createHttpRequest\<close> returns
    holds under a key \<open>ck\<close> the values of the entries whose key has the canonical spelling
    \<open>ck\<close>, in the order of the entries; key and value of an entry are what stands before
    and after its colon, and the value is filed unchanged.
\<close>

theorem header_validation:
  "(h \<in> set (flag_header f) \<and> count_list h CHR '':'' \<noteq> 1 \<longrightarrow>
      (\<exists>e. main_startup lib f = Inl e \<and> (e = Exit 0 \<longleftrightarrow> flag_version f))) \<and>
   (\<not> flag_version f \<and> length (args f) = 1 \<and> main_url lib (args f ! 0) = Inr url \<and>
    createHttpBody lib (flag_data f) = Inr body \<and> NewRequest_err lib (flag_type f) url = None \<and>
    flag_header f = good @ h # rest \<and>
    list_all (\<lambda>g. count_list g CHR '':'' = 1) good \<and> count_list h CHR '':'' \<noteq> 1 \<longrightarrow>
      main_startup lib f = Inl (Fatalf ''[SPOTTER]: Malformed Request Header:\<newline>%v'' [h])) \<and>
   (list_all (\<lambda>g. count_list g CHR '':'' = 1) hs \<and>
    createHttpRequest lib requestMethod requestBody hs url = Inr req \<longrightarrow>
      (\<forall>ck. Header req ck =
         (let vals = map (\<lambda>g. drop 1 (dropWhile (\<lambda>ch. ch \<noteq> CHR '':'') g))
                       (filter (\<lambda>g. CanonicalHeaderKey lib
                                       (takeWhile (\<lambda>ch. ch \<noteq> CHR '':'') g) = ck) hs)
          in if vals = [] then None else Some vals)))"
proof (intro conjI impI)
  assume a: "h \<in> set (flag_header f) \<and> count_list h CHR '':'' \<noteq> 1"
  show "\<exists>e. main_startup lib f = Inl e \<and> (e = Exit 0 \<longleftrightarrow> flag_version f)"
  proof (cases "flag_version f \<or> length (args f) \<noteq> 1")
    case True
    then show ?thesis by (auto simp: main_startup_def)
  next
    case False
    show ?thesis
    proof (cases "main_url lib (args f ! 0)")
      case (Inl e)
      with False main_url_exit [OF Inl] show ?thesis by (simp add: main_startup_def)
    next
      case (Inr u)
      from a createHttpRequest_aborts [of h "flag_header f" lib "flag_type f" "flag_data f" u]
      obtain fmt vs where
        "createHttpRequest lib (flag_type f) (flag_data f) (flag_header f) u = Inl (Fatalf fmt vs)"
        by blast
      with False Inr show ?thesis by (simp add: main_startup_def)
    qed
  qed
next
  assume "\<not> flag_version f \<and> length (args f) = 1 \<and> main_url lib (args f ! 0) = Inr url \<and>
    createHttpBody lib (flag_data f) = Inr body \<and> NewRequest_err lib (flag_type f) url = None \<and>
    flag_header f = good @ h # rest \<and>
    list_all (\<lambda>g. count_list g CHR '':'' = 1) good \<and> count_list h CHR '':'' \<noteq> 1"
  then show "main_startup lib f = Inl (Fatalf ''[SPOTTER]: Malformed Request Header:\<newline>%v'' [h])"
    by (simp add: main_startup_def createHttpRequest_def add_headers_malformed)
next
  assume a: "list_all (\<lambda>g. count_list g CHR '':'' = 1) hs \<and>
    createHttpRequest lib requestMethod requestBody hs url = Inr req"
  then obtain body where
    ah: "add_headers lib hs
           \<lparr>Method = (if requestMethod = [] then ''GET'' else requestMethod),
            Target = url, Header = Map.empty, Body = body\<rparr> = Inr req"
    by (auto simp: createHttpRequest_def split: sum.splits option.splits)
  from a add_headers_wellformed [of hs lib
      "\<lparr>Method = (if requestMethod = [] then ''GET'' else requestMethod),
        Target = url, Header = Map.empty, Body = body\<rparr>"] ah
  show "\<forall>ck. Header req ck =
         (let vals = map (\<lambda>g. drop 1 (dropWhile (\<lambda>ch. ch \<noteq> CHR '':'') g))
                       (filter (\<lambda>g. CanonicalHeaderKey lib
                                       (takeWhile (\<lambda>ch. ch \<noteq> CHR '':'') g) = ck) hs)
          in if vals = [] then None else Some vals)"
    by (auto simp: Let_def)
qed

text \<open>
  The examples \<open>a:b:c\<close> and \<open>X-Foo\<close>, and three well-formed entries, two of them with keys
  of the same canonical spelling.
\<close>

theorem header_validation_witness:
  "main_startup demo_lib (demo_flags\<lparr>flag_header := [''Accept:text/plain'', ''a:b:c'']\<rparr>)
     = Inl (Fatalf ''[SPOTTER]: Malformed Request Header:\<newline>%v'' [''a:b:c'']) \<and>
   main_startup demo_lib (demo_flags\<lparr>flag_header := [''X-Foo'']\<rparr>)
     = Inl (Fatalf ''[SPOTTER]: Malformed Request Header:\<newline>%v'' [''X-Foo'']) \<and>
   isl (main_startup demo_lib (demo_flags\<lparr>flag_header := [''Accept:text/plain'', ''a:b:c'']\<rparr>)) \<and>
   main_startup demo_lib (demo_flags\<lparr>flag_header := [''Accept:text/plain'', ''a:b:c'']\<rparr>)
     \<noteq> Inl (Exit 0) \<and>
   map_sum id (\<lambda>req. (Header req ''Accept'', Header req ''X-Foo'', Header req ''x-foo''))
     (createHttpRequest demo_lib ''GET'' []
        [''x-foo:bar'', ''Accept:text/plain'', ''X-Foo: baz'']
        \<lparr>Scheme = ''http'', Host = ''example.com'', Path = ''/path''\<rparr>)
     = Inr (Some [''text/plain''], Some [''bar'', '' baz''], None)"
proof -
  let ?u = "\<lparr>Scheme = ''http'', Host = ''example.com'', Path = ''/path''\<rparr>"
  let ?f = "demo_flags\<lparr>flag_header := [''Accept:text/plain'', ''a:b:c'']\<rparr>"
  let ?g = "demo_flags\<lparr>flag_header := [''X-Foo'']\<rparr>"
  let ?hs = "[''x-foo:bar'', ''Accept:text/plain'', ''X-Foo: baz'']"
  have pa: "\<not> flag_version ?f \<and> length (args ?f) = 1 \<and> main_url demo_lib (args ?f ! 0) = Inr ?u \<and>
    createHttpBody demo_lib (flag_data ?f) = Inr (StringsReader []) \<and>
    NewRequest_err demo_lib (flag_type ?f) ?u = None \<and>
    flag_header ?f = [''Accept:text/plain''] @ ''a:b:c'' # [] \<and>
    list_all (\<lambda>g. count_list g CHR '':'' = 1) [''Accept:text/plain''] \<and>
    count_list ''a:b:c'' CHR '':'' \<noteq> 1"
    by (simp add: demo_flags_def demo_url createHttpBody_def strings_HasPrefix_def)
       (simp add: demo_lib_def)
  have pb: "\<not> flag_version ?g \<and> length (args ?g) = 1 \<and> main_url demo_lib (args ?g ! 0) = Inr ?u \<and>
    createHttpBody demo_lib (flag_data ?g) = Inr (StringsReader []) \<and>
    NewRequest_err demo_lib (flag_type ?g) ?u = None \<and>
    flag_header ?g = [] @ ''X-Foo'' # [] \<and>
    list_all (\<lambda>g. count_list g CHR '':'' = 1) [] \<and>
    count_list ''X-Foo'' CHR '':'' \<noteq> 1"
    by (simp add: demo_flags_def demo_url createHttpBody_def strings_HasPrefix_def)
       (simp add: demo_lib_def)
  have pc: "''a:b:c'' \<in> set (flag_header ?f) \<and> count_list ''a:b:c'' CHR '':'' \<noteq> 1"
    by simp
  obtain req where r: "createHttpRequest demo_lib ''GET'' [] ?hs ?u = Inr req"
    by (simp add: createHttpRequest_def createHttpBody_def strings_HasPrefix_def demo_lib_def
          extractHeaderKV_def)
  have pd: "list_all (\<lambda>g. count_list g CHR '':'' = 1) ?hs \<and>
    createHttpRequest demo_lib ''GET'' [] ?hs ?u = Inr req"
    using r by simp
  have a: "main_startup demo_lib ?f
     = Inl (Fatalf ''[SPOTTER]: Malformed Request Header:\<newline>%v'' [''a:b:c''])"
    using header_validation [THEN conjunct2, THEN conjunct1, THEN mp, OF pa] .
  have b: "main_startup demo_lib ?g
     = Inl (Fatalf ''[SPOTTER]: Malformed Request Header:\<newline>%v'' [''X-Foo''])"
    using header_validation [THEN conjunct2, THEN conjunct1, THEN mp, OF pb] .
  have "\<exists>e. main_startup demo_lib ?f = Inl e \<and> (e = Exit 0 \<longleftrightarrow> flag_version ?f)"
    using header_validation [THEN conjunct1, THEN mp, OF pc] .
  then have c: "isl (main_startup demo_lib ?f) \<and> main_startup demo_lib ?f \<noteq> Inl (Exit 0)"
    by (auto simp: demo_flags_def)
  have filed: "\<forall>ck. Header req ck =
         (let vals = map (\<lambda>g. drop 1 (dropWhile (\<lambda>ch. ch \<noteq> CHR '':'') g))
                       (filter (\<lambda>g. CanonicalHeaderKey demo_lib
                                       (takeWhile (\<lambda>ch. ch \<noteq> CHR '':'') g) = ck) ?hs)
          in if vals = [] then None else Some vals)"
    using header_validation [THEN conjunct2, THEN conjunct2, THEN mp, OF pd] .
  have "Header req ''Accept'' = Some [''text/plain'']"
    and "Header req ''X-Foo'' = Some [''bar'', '' baz'']"
    and "Header req ''x-foo'' = None"
    by (simp_all add: filed demo_lib_def plain_CanonicalHeaderKey_def isTokenByte_def
          toUpper_def toLower_def)
  with r have d: "map_sum id (\<lambda>req. (Header req ''Accept'', Header req ''X-Foo'', Header req ''x-foo''))
     (createHttpRequest demo_lib ''GET'' [] ?hs ?u)
     = Inr (Some [''text/plain''], Some [''bar'', '' baz''], None)" by simp
  from a b c d show ?thesis by blast
qed

text \<open>
  The statement as the claim has it fails on these inputs. With \<open>-version\<close> and the
  malformed header \<open>X-Foo\<close> the process exits with status 0. With a body file that does
  not exist, with no target, with a target that does not parse and with a method that
  \<open>NewRequest\<close> rejects, the process ends before the headers are looked at, with the
  error of that step. The header \<open>x-foo:bar\<close> is not filed under \<open>x-foo\<close>, but under
  \<open>X-Foo\<close>.
\<close>

theorem header_validation_counterexample:
  "main_startup demo_lib (demo_flags\<lparr>flag_version := True, flag_header := [''X-Foo'']\<rparr>)
     = Inl (Exit 0) \<and>
   main_startup demo_lib (demo_flags\<lparr>flag_data := ''@missing'', flag_header := [''X-Foo'']\<rparr>)
     = Inl (Fatalf ''[SPOTTER]: Could not read from File %s %v''
              [''missing'', ''open missing: no such file or directory'']) \<and>
   main_startup demo_lib (demo_flags\<lparr>args := [], flag_header := [''X-Foo'']\<rparr>) = Inl (Exit 1) \<and>
   main_startup demo_lib (demo_flags\<lparr>args := [''://example.com''], flag_header := [''X-Foo'']\<rparr>)
     = Inl (Exit 1) \<and>
   main_startup (demo_lib\<lparr>NewRequest_err := \<lambda>method url. Some (GoError ''net/http: invalid method'')\<rparr>)
       (demo_flags\<lparr>flag_type := ''G T'', flag_header := [''X-Foo'']\<rparr>)
     = Inl (Fatalf ''[SPOTTER]: Couldn't create HTTP Request:\<newline>%v'' [''net/http: invalid method'']) \<and>
   map_sum id (\<lambda>req. (Header req ''x-foo'', Header req ''X-Foo''))
     (createHttpRequest demo_lib ''GET'' [] [''x-foo:bar'']
        \<lparr>Scheme = ''http'', Host = ''example.com'', Path = ''/path''\<rparr>)
     = Inr (None, Some [''bar''])"
  by (simp add: startup_eval Header_Add_def plain_CanonicalHeaderKey_def
        isTokenByte_def toUpper_def)

subsection \<open>C8: three categories, and counts that add up\<close>

text \<open>
  C8. Every outcome \<open>crunchRequest\<close> returns has category \<open>net\<close>, \<open>bad\<close> or \<open>succ\<close>,
  and so has every outcome in the channel, at any moment of any run. Draining the
  outcomes of the channel in any order \<open>outs\<close> gives counters with
  \<open>succ + badFailed + netFailed = total\<close>, and the same four counters as draining them
  in the order they were sent in.
\<close>

theorem tally_adds_up:
  assumes "main_spawn lib httpRequest httpClient requests_flag clients = Inr s0"
  shows "category (fst (crunchRequest lib conf ex)) \<in> {''net'', ''bad'', ''succ''} \<and>
    (\<forall>out \<in> set (queue (resultBuffer (config (run lib net sched s0)))).
        category out \<in> {''net'', ''bad'', ''succ''}) \<and>
    (\<forall>outs. mset outs = mset (queue (resultBuffer (config (run lib net sched s0)))) \<longrightarrow>
        succ (main_drain outs) + badFailed (main_drain outs) + netFailed (main_drain outs)
          = total (main_drain outs) \<and>
        succ (main_drain outs) = succ (main_drain (queue (resultBuffer (config (run lib net sched s0))))) \<and>
        badFailed (main_drain outs) = badFailed (main_drain (queue (resultBuffer (config (run lib net sched s0))))) \<and>
        netFailed (main_drain outs) = netFailed (main_drain (queue (resultBuffer (config (run lib net sched s0))))) \<and>
        total (main_drain outs) = total (main_drain (queue (resultBuffer (config (run lib net sched s0))))))"
proof -
  let ?q = "queue (resultBuffer (config (run lib net sched s0)))"
  have k: "list_all known ?q"
    using spawn_known [OF assms] by (rule run_known)
  have a: "category (fst (crunchRequest lib conf ex)) \<in> {''net'', ''bad'', ''succ''}"
    using crunchRequest_known [of lib conf ex] by (auto simp: known_def)
  have b: "\<forall>out \<in> set ?q. category out \<in> {''net'', ''bad'', ''succ''}"
    using k by (auto simp: list_all_iff known_def)
  have c: "succ (main_drain outs) + badFailed (main_drain outs) + netFailed (main_drain outs)
          = total (main_drain outs) \<and>
        succ (main_drain outs) = succ (main_drain ?q) \<and>
        badFailed (main_drain outs) = badFailed (main_drain ?q) \<and>
        netFailed (main_drain outs) = netFailed (main_drain ?q) \<and>
        total (main_drain outs) = total (main_drain ?q)"
    if m: "mset outs = mset ?q" for outs
  proof -
    have "list_all known outs" using m [symmetric] k by (rule known_mset)
    from known_split [OF this]
    have "succ (main_drain outs) + badFailed (main_drain outs) + netFailed (main_drain outs)
          = total (main_drain outs)"
      by (simp add: main_drain_counts total_main_drain flip: of_nat_add)
    moreover have "length outs = length ?q" using m by (metis size_mset)
    ultimately show ?thesis
      using filter_length_mset [OF m] by (simp add: main_drain_counts total_main_drain)
  qed
  from a b c show ?thesis by blast
qed

text \<open>
  One request for each of two clients, the second refused; drained in the opposite
  order.
\<close>

theorem tally_adds_up_witness:
  "(case main_spawn demo_lib demo_request demo_client 1 2 of
      Inl e \<Rightarrow> False
    | Inr s0 \<Rightarrow>
        queue (resultBuffer (config (run demo_lib mixed [0, Suc 0, Suc 0, 0] s0)))
          = [\<lparr>category = ''net'', respBody = ''connection refused''\<rparr>,
             \<lparr>category = ''succ'', respBody = ''ok''\<rparr>] \<and>
        succ (main_drain
               [\<lparr>category = ''succ'', respBody = ''ok''\<rparr>,
                \<lparr>category = ''net'', respBody = ''connection refused''\<rparr>]) = 1 \<and>
        netFailed (main_drain
               [\<lparr>category = ''succ'', respBody = ''ok''\<rparr>,
                \<lparr>category = ''net'', respBody = ''connection refused''\<rparr>]) = 1 \<and>
        badFailed (main_drain
               [\<lparr>category = ''succ'', respBody = ''ok''\<rparr>,
                \<lparr>category = ''net'', respBody = ''connection refused''\<rparr>]) = 0 \<and>
        total (main_drain
               [\<lparr>category = ''succ'', respBody = ''ok''\<rparr>,
                \<lparr>category = ''net'', respBody = ''connection refused''\<rparr>]) = 2 \<and>
        succ (main_drain (queue (resultBuffer (config (run demo_lib mixed [0, Suc 0, Suc 0, 0] s0)))))
        + badFailed (main_drain (queue (resultBuffer (config (run demo_lib mixed [0, Suc 0, Suc 0, 0] s0)))))
        + netFailed (main_drain (queue (resultBuffer (config (run demo_lib mixed [0, Suc 0, Suc 0, 0] s0)))))
        = 2)"
proof -
  let ?s0 = "\<lparr>config = \<lparr>request = demo_request, client = demo_client, requests = 1,
                      resultBuffer = \<lparr>queue = [], cap = 2\<rparr>\<rparr>,
          workers = [AtLoop 1, AtLoop 1], attempts = []\<rparr>"
  let ?ok = "\<lparr>category = ''succ'', respBody = ''ok''\<rparr>"
  let ?no = "\<lparr>category = ''net'', respBody = ''connection refused''\<rparr>"
  let ?q = "queue (resultBuffer (config (run demo_lib mixed [0, Suc 0, Suc 0, 0] ?s0)))"
  have q: "?q = [?no, ?ok]"
    by (simp add: run_eval)
  then have m: "mset [?ok, ?no] = mset ?q" by simp
  have in_q: "?no \<in> set ?q" by (subst q) simp
  note t = tally_adds_up [OF spawn_1_2, of _ _ mixed "[0, Suc 0, Suc 0, 0]"]
  from t in_q have "category ?no \<in> {''net'', ''bad'', ''succ''}" by blast
  from t m have
    "succ (main_drain [?ok, ?no]) + badFailed (main_drain [?ok, ?no]) + netFailed (main_drain [?ok, ?no])
       = total (main_drain [?ok, ?no])"
    and e: "succ (main_drain [?ok, ?no]) = succ (main_drain ?q)"
      "badFailed (main_drain [?ok, ?no]) = badFailed (main_drain ?q)"
      "netFailed (main_drain [?ok, ?no]) = netFailed (main_drain ?q)"
      "total (main_drain [?ok, ?no]) = total (main_drain ?q)"
    by blast+
  moreover have v: "succ (main_drain [?ok, ?no]) = 1" "netFailed (main_drain [?ok, ?no]) = 1"
    "badFailed (main_drain [?ok, ?no]) = 0" "total (main_drain [?ok, ?no]) = 2"
    by (simp_all add: main_drain_def count_output_def tally0_def)
  ultimately have "succ (main_drain ?q) + badFailed (main_drain ?q) + netFailed (main_drain ?q) = 2"
    by simp
  with q v show ?thesis by (simp add: spawn_1_2)
qed

subsection \<open>C9: the capacity of the channel\<close>

text \<open>
  C9. As stated the claim fails: the capacity is \<open>requests*int64(clients)\<close> computed in
  64 bits, which is not \<open>clients * requests\<close> when the product does not fit (see the
  counterexample below). The theorem is the claim for the configurations with
  \<open>clients \<ge> 1\<close> and \<open>requests \<ge> 1\<close> whose product the runtime grants as a capacity,
  with that bound below \<open>2^63 - 1\<close>: the channel is made with capacity
  \<open>clients * requests\<close>; at any moment of any run the capacity is still that, the channel
  holds no more outcomes than its capacity, and no worker is blocked in its send.
\<close>

theorem sink_never_blocks:
  assumes c: "1 \<le> sint clients" and r: "1 \<le> sint requests_flag"
    and fit: "sint clients * sint requests_flag \<le> int (makechan_max lib)"
    and mx: "makechan_max lib < 2^63 - 1"
  shows "\<exists>s0. main_spawn lib httpRequest httpClient requests_flag clients = Inr s0 \<and>
    (\<forall>net sched wid.
       int (cap (resultBuffer (config (run lib net sched s0)))) = sint clients * sint requests_flag \<and>
       length (queue (resultBuffer (config (run lib net sched s0))))
         \<le> cap (resultBuffer (config (run lib net sched s0))) \<and>
       \<not> blocked (run lib net sched s0) wid)"
proof -
  let ?N = "sint requests_flag" and ?c = "nat (sint clients)"
  have N: "0 \<le> ?N" "?N < 2^63 - 1"
    using r requests_small [OF c r fit mx] by simp_all
  from spawn_ok [OF c r fit mx, of httpRequest httpClient]
  obtain s0 where sp: "main_spawn lib httpRequest httpClient requests_flag clients = Inr s0"
    and p0: "pool_inv ?N ?c s0" by blast
  have "int (cap (resultBuffer (config (run lib net sched s0)))) = sint clients * ?N \<and>
       length (queue (resultBuffer (config (run lib net sched s0))))
         \<le> cap (resultBuffer (config (run lib net sched s0))) \<and>
       \<not> blocked (run lib net sched s0) wid" for net sched wid
  proof -
    let ?s = "run lib net sched s0"
    have p: "pool_inv ?N ?c ?s" using N p0 by (rule run_inv)
    then have cp: "cap (resultBuffer (config ?s)) = ?c * nat ?N"
      and len: "length (workers ?s) = ?c"
      and rng: "list_all (in_range ?N) (workers ?s)"
      and q: "length (queue (resultBuffer (config ?s))) = sum_list (map (sent_of ?N) (workers ?s))"
      by (simp_all add: pool_inv_def)
    from rng have "list_all (\<lambda>w. sent_of ?N w \<le> nat ?N) (workers ?s)"
      using N(1) by (auto simp: list_all_iff intro: sent_le)
    then have "sum_list (map (sent_of ?N) (workers ?s)) \<le> length (workers ?s) * nat ?N"
      by (rule sum_list_bound)
    then have "length (queue (resultBuffer (config ?s))) \<le> cap (resultBuffer (config ?s))"
      using q cp len by simp
    moreover have "int (cap (resultBuffer (config ?s))) = sint clients * ?N"
      using cp c r by simp
    moreover have "\<not> blocked ?s wid" using N(1) p by (rule not_blocked)
    ultimately show ?thesis by blast
  qed
  with sp show ?thesis by blast
qed

text \<open>Two clients with five requests each.\<close>

theorem sink_never_blocks_witness:
  "(case main_spawn demo_lib demo_request demo_client 5 2 of
      Inl e \<Rightarrow> False
    | Inr s0 \<Rightarrow>
        cap (resultBuffer (config s0)) = 10 \<and>
        cap (resultBuffer (config (run demo_lib (answers 200 ''ok'') two_by_eleven s0))) = 10 \<and>
        length (queue (resultBuffer (config (run demo_lib (answers 200 ''ok'') two_by_eleven s0)))) \<le> 10 \<and>
        \<not> blocked (run demo_lib (answers 200 ''ok'') [0, 0, 0] s0) 0)"
proof -
  have h: "1 \<le> sint (2 :: int64)" "1 \<le> sint (5 :: int64)"
    "sint (2 :: int64) * sint (5 :: int64) \<le> int (makechan_max demo_lib)"
    "makechan_max demo_lib < 2^63 - 1"
    by (simp_all add: demo_lib_def)
  from sink_never_blocks [OF h, of demo_request demo_client]
  obtain s0 where sp: "main_spawn demo_lib demo_request demo_client 5 2 = Inr s0"
    and all: "\<And>net sched wid.
       int (cap (resultBuffer (config (run demo_lib net sched s0)))) = sint (2 :: int64) * sint (5 :: int64) \<and>
       length (queue (resultBuffer (config (run demo_lib net sched s0))))
         \<le> cap (resultBuffer (config (run demo_lib net sched s0))) \<and>
       \<not> blocked (run demo_lib net sched s0) wid"
    by blast
  from all [of "answers 200 ''ok''" "[]" 0] have "cap (resultBuffer (config s0)) = 10" by simp
  moreover from all [of "answers 200 ''ok''" two_by_eleven 0]
  have "cap (resultBuffer (config (run demo_lib (answers 200 ''ok'') two_by_eleven s0))) = 10"
    and "length (queue (resultBuffer (config (run demo_lib (answers 200 ''ok'') two_by_eleven s0)))) \<le> 10"
    by simp_all
  moreover from all [of "answers 200 ''ok''" "[0, 0, 0]" 0]
  have "\<not> blocked (run demo_lib (answers 200 ''ok'') [0, 0, 0] s0) 0" by simp
  ultimately show ?thesis using sp by simp
qed

text \<open>
  Four clients with \<open>2^62 + 1\<close> requests each: the product \<open>2^64 + 4\<close> wraps around to
  4, the channel has capacity 4, and the fifth send of worker 0 blocks.
\<close>

theorem sink_never_blocks_counterexample:
  "1 \<le> sint (4 :: int64) \<and> 1 \<le> sint (4611686018427387905 :: int64) \<and>
   sint (4 :: int64) * sint (4611686018427387905 :: int64) = 18446744073709551620 \<and>
   (case main_spawn demo_lib demo_request demo_client 4611686018427387905 4 of
      Inl e \<Rightarrow> False
    | Inr s0 \<Rightarrow>
        cap (resultBuffer (config s0)) = 4 \<and>
        blocked (run demo_lib (answers 200 ''ok'') [0, 0, 0, 0, 0, 0, 0, 0, 0] s0) 0)"
  by (simp add: spawn_overflow) (simp add: run_eval blocked_def)

subsection \<open>C10: certificates are not verified\<close>

text \<open>
  C10. Whatever the flags, the client \<open>main\<close> builds has a transport whose TLS
  configuration sets \<open>InsecureSkipVerify\<close>; and when startup succeeds, the client in the
  shared configuration has it set, at any moment of any run.
\<close>

theorem tls_verification_disabled:
  "InsecureSkipVerify (TLSClientConfig (Transport (main_client requestTimeout redirects))) \<and>
   (case main_startup lib f of
      Inl e \<Rightarrow> True
    | Inr s0 \<Rightarrow>
        InsecureSkipVerify (TLSClientConfig (Transport (client (config (run lib net sched s0))))))"
proof -
  have keep: "client (config (run lib net sched s)) = client (config s)" for s
  proof (induction sched arbitrary: s)
    case Nil
    then show ?case by simp
  next
    case (Cons wid sched)
    have "client (config (bench_step lib net wid s)) = client (config s)"
      by (simp add: bench_step_def split_beta Let_def crunchRequest_keeps split: worker.splits)
    with Cons show ?case by simp
  qed
  have tls: "InsecureSkipVerify (TLSClientConfig (Transport (main_client t r)))" for t r
    by (simp add: main_client_def main_transport_def)
  have "InsecureSkipVerify (TLSClientConfig (Transport (client (config s0))))"
    if "main_startup lib f = Inr s0" for s0
    using that tls
    by (auto simp: main_startup_def main_spawn_def split: if_splits sum.splits)
  then show ?thesis using tls by (auto simp: keep split: sum.splits)
qed

subsection \<open>The example of two clients and five requests\<close>

text \<open>
  Two clients, five requests each, every attempt answered with status 200: the orchestrator
  counts ten outcomes, all of them successes.
\<close>

theorem two_clients_five_requests:
  "(case main_spawn demo_lib demo_request demo_client 5 2 of
      Inl e \<Rightarrow> None
    | Inr s0 \<Rightarrow>
        map_option (\<lambda>t. (total t, succ t, netFailed t, badFailed t))
          (main_collect
             (run demo_lib (answers 200 ''ok'')
                [0, Suc 0, 0, Suc 0, 0, Suc 0, 0, Suc 0, 0, Suc 0, 0,
                 Suc 0, 0, Suc 0, 0, Suc 0, 0, Suc 0, 0, Suc 0, 0, Suc 0] s0)))
    = Some (10, 10, 0, 0)"
  by (simp add: main_spawn_def make_chan_def demo_lib_def replicate_2)
     (simp add: run_eval barrier_open_def main_collect_def main_drain_def count_output_def
        tally0_def)

end
